theory Spec2Isabelle
  imports Complex_Main
begin

section \<open>Python values\<close>

text \<open>
  The fetcher of \<^verbatim>\<open>reddit_fetcher.py\<close> handles untyped data: the JSON body of a
  response is whatever \<^verbatim>\<open>response.json()\<close> parsed, and a post is a \<^verbatim>\<open>dict\<close>
  of such values. \<open>pyval\<close> is that universe. A number is the exact number it denotes
  (Python's \<^verbatim>\<open>int\<close> and the value of a \<^verbatim>\<open>float\<close>; comparison never rounds), a
  string is a list of characters, one \<open>char\<close> per Python character, and a \<^verbatim>\<open>dict\<close>
  is the list of its items in insertion order, keys distinct.
\<close>

datatype pyval =
    PyNone
  | PyBool bool
  | PyNum rat
  | PyStr string
  | PyList "pyval list"
  | PyDict "(string \<times> pyval) list"

type_synonym pydict = "(string \<times> pyval) list"

text \<open>The exceptions the code can meet. \<open>PrawException\<close> stands for anything the
  authenticated client library raises, \<open>ValueError\<close> for what
  \<^verbatim>\<open>datetime.utcfromtimestamp\<close> raises on a number out of its range.\<close>

datatype pyexn =
    RequestException
  | AttributeError
  | TypeError
  | KeyError
  | IndexError
  | ValueError
  | PrawException

definition bindE :: "'e + 'a \<Rightarrow> ('a \<Rightarrow> 'e + 'b) \<Rightarrow> 'e + 'b" where
  "bindE m f = (case m of Inl e \<Rightarrow> Inl e | Inr x \<Rightarrow> f x)"

text \<open>\<^verbatim>\<open>bool(v)\<close>, as \<^verbatim>\<open>if v:\<close> and \<^verbatim>\<open>not v\<close> use it.\<close>

fun truthy :: "pyval \<Rightarrow> bool" where
  "truthy PyNone = False"
| "truthy (PyBool b) = b"
| "truthy (PyNum n) = (n \<noteq> 0)"
| "truthy (PyStr s) = (s \<noteq> [])"
| "truthy (PyList xs) = (xs \<noteq> [])"
| "truthy (PyDict kvs) = (kvs \<noteq> [])"

text \<open>\<^verbatim>\<open>obj.get(key, default)\<close>: only a \<^verbatim>\<open>dict\<close> has the method.\<close>

fun py_get :: "pyval \<Rightarrow> string \<Rightarrow> pyval \<Rightarrow> pyexn + pyval" where
  "py_get (PyDict kvs) k d = Inr (case map_of kvs k of Some v \<Rightarrow> v | None \<Rightarrow> d)"
| "py_get _ k d = Inl AttributeError"

text \<open>\<^verbatim>\<open>for x in v\<close>: a list gives its elements, a string its characters, a
  \<^verbatim>\<open>dict\<close> its keys; nothing else is iterable.\<close>

fun py_iter :: "pyval \<Rightarrow> pyexn + pyval list" where
  "py_iter (PyList xs) = Inr xs"
| "py_iter (PyStr s) = Inr (map (\<lambda>c. PyStr [c]) s)"
| "py_iter (PyDict kvs) = Inr (map (\<lambda>kv. PyStr (fst kv)) kvs)"
| "py_iter _ = Inl TypeError"

text \<open>\<^verbatim>\<open>v >= m\<close> for an integer \<open>m\<close>: defined on numbers (\<^verbatim>\<open>bool\<close> is a
  subclass of \<^verbatim>\<open>int\<close>), a \<^verbatim>\<open>TypeError\<close> on anything else.\<close>

fun py_ge :: "pyval \<Rightarrow> rat \<Rightarrow> pyexn + bool" where
  "py_ge (PyNum n) m = Inr (m \<le> n)"
| "py_ge (PyBool b) m = Inr (m \<le> (if b then 1 else 0))"
| "py_ge _ m = Inl TypeError"

text \<open>\<^verbatim>\<open>v[:n]\<close>: strings and lists are sliced, nothing else can be.\<close>

fun py_slice :: "pyval \<Rightarrow> nat \<Rightarrow> pyexn + pyval" where
  "py_slice (PyStr s) n = Inr (PyStr (take n s))"
| "py_slice (PyList xs) n = Inr (PyList (take n xs))"
| "py_slice _ n = Inl TypeError"

text \<open>\<^verbatim>\<open>len(v)\<close>.\<close>

fun py_len :: "pyval \<Rightarrow> pyexn + nat" where
  "py_len (PyStr s) = Inr (length s)"
| "py_len (PyList xs) = Inr (length xs)"
| "py_len (PyDict kvs) = Inr (length kvs)"
| "py_len _ = Inl TypeError"

text \<open>\<^verbatim>\<open>v[i]\<close> for a literal index \<open>i\<close>. The keys of a parsed JSON object are
  strings, so an integer is never one of them.\<close>

fun py_index :: "pyval \<Rightarrow> nat \<Rightarrow> pyexn + pyval" where
  "py_index (PyList xs) i = (if i < length xs then Inr (xs ! i) else Inl IndexError)"
| "py_index (PyStr s) i = (if i < length s then Inr (PyStr [s ! i]) else Inl IndexError)"
| "py_index (PyDict kvs) i = Inl KeyError"
| "py_index _ i = Inl TypeError"

text \<open>\<^verbatim>\<open>d[key]\<close> and \<^verbatim>\<open>d.get(key, default)\<close> on a \<^verbatim>\<open>dict\<close> the code built
  itself, and \<^verbatim>\<open>d.update(other)\<close>: a key already there keeps its place, a new one
  goes to the end.\<close>

definition dict_item :: "pydict \<Rightarrow> string \<Rightarrow> pyexn + pyval" where
  "dict_item d k = (case map_of d k of Some v \<Rightarrow> Inr v | None \<Rightarrow> Inl KeyError)"

definition dict_get :: "pydict \<Rightarrow> string \<Rightarrow> pyval \<Rightarrow> pyval" where
  "dict_get d k dflt = (case map_of d k of Some v \<Rightarrow> v | None \<Rightarrow> dflt)"

fun dict_set :: "string \<Rightarrow> pyval \<Rightarrow> pydict \<Rightarrow> pydict" where
  "dict_set k v [] = [(k, v)]"
| "dict_set k v (p # ps) = (if fst p = k then (k, v) # ps else p # dict_set k v ps)"

definition dict_update :: "pydict \<Rightarrow> pydict \<Rightarrow> pydict" where
  "dict_update d other = fold (\<lambda>kv. dict_set (fst kv) (snd kv)) other d"

section \<open>Configuration\<close>

text \<open>\<^verbatim>\<open>config.py\<close>. A name is valid when it matches
  \<^verbatim>\<open>^[a-zA-Z0-9_]{3,21}$\<close>; with \<^verbatim>\<open>re.match\<close> the \<^verbatim>\<open>$\<close> also matches before
  one final newline.\<close>

definition name_char :: "char \<Rightarrow> bool" where
  "name_char c = (c \<in> set ''abcdefghijklmnopqrstuvwxyzABCDEFGHIJKLMNOPQRSTUVWXYZ0123456789_'')"

definition name_core :: "string \<Rightarrow> bool" where
  "name_core s = (3 \<le> length s \<and> length s \<le> 21 \<and> list_all name_char s)"

definition validate_subreddit_name :: "string \<Rightarrow> bool" where
  "validate_subreddit_name name =
     (name_core name \<or> (name \<noteq> [] \<and> last name = CHR 0x0A \<and> name_core (butlast name)))"

definition raw_subreddits :: "string list" where
  "raw_subreddits =
     [''vosfinances'', ''vossous'', ''Bogleheads'', ''eupersonalfinance'', ''ETFs_Europe'']"

definition SUBREDDITS :: "string list" where
  "SUBREDDITS = filter validate_subreddit_name raw_subreddits"

definition MIN_SCORE :: int where
  "MIN_SCORE = 10"

definition POSTS_PER_REQUEST :: int where
  "POSTS_PER_REQUEST = 100"

definition TIME_FILTER :: string where
  "TIME_FILTER = ''all''"

section \<open>The outside world\<close>

text \<open>
  A request to the public endpoint is its URL and parameters: the ranked posts of a
  community (\<^verbatim>\<open>t\<close>, \<^verbatim>\<open>limit\<close>, and \<^verbatim>\<open>after\<close> when there is a cursor), or the
  comments of a post. \<^verbatim>\<open>requests.get\<close>, \<^verbatim>\<open>raise_for_status\<close> and \<^verbatim>\<open>json\<close>
  together either raise a \<^verbatim>\<open>requests.RequestException\<close> or deliver the parsed body.
\<close>

datatype request =
    GetPosts string string int "pyval option"
  | GetComments string pyval

datatype response = Fails | Body pyval

text \<open>What the authenticated client library hands over: a client, the submissions
  of a listing (the iteration may raise at any point), the comments of a submission.\<close>

datatype client = Client nat

record submission =
  s_id :: string
  s_title :: string
  s_selftext :: "string option"
  s_score :: int
  s_num_comments :: int
  s_created_utc :: rat
  s_permalink :: string
  s_author :: "string option"
  s_upvote_ratio :: rat

datatype top_item = Item submission | TopRaises

record praw_comment =
  c_id :: string
  c_body :: "string option"
  c_score :: int
  c_author :: "string option"

datatype praw_call =
    NewReddit
  | UserMe client
  | CallTop client string string int
  | CallSubmission client pyval

text \<open>
  The environment of a run: the two configuration flags that come from outside
  (\<^verbatim>\<open>REDDIT_API_ENABLED\<close> from the process environment, \<^verbatim>\<open>PRAW_AVAILABLE\<close> from the
  import), the public endpoint as a function of the request, the authenticated library
  as functions of the calls made to it so far (so a later attempt may differ from an
  earlier one), and three library functions: the formatted UTC time of a timestamp
  (\<open>None\<close> when \<^verbatim>\<open>utcfromtimestamp\<close> raises), \<^verbatim>\<open>str\<close> as an f-string applies
  it, and the clock.
\<close>

record env =
  REDDIT_API_ENABLED :: bool
  PRAW_AVAILABLE :: bool
  requests_get :: "request \<Rightarrow> response"
  praw_Reddit :: "praw_call list \<Rightarrow> client option"
  user_me :: "praw_call list \<Rightarrow> client \<Rightarrow> bool"
  sub_top :: "praw_call list \<Rightarrow> client \<Rightarrow> string \<Rightarrow> string \<Rightarrow> int \<Rightarrow> top_item list"
  submission_comments :: "praw_call list \<Rightarrow> client \<Rightarrow> pyval \<Rightarrow> praw_comment list option"
  utcfromtimestamp :: "rat \<Rightarrow> string option"
  py_str :: "pyval \<Rightarrow> string"
  time_time :: rat

text \<open>The mutable state: the module's global \<^verbatim>\<open>_reddit_instance\<close> and the calls
  made to the authenticated library, in order.\<close>

record world =
  reddit_instance :: "client option"
  praw_log :: "praw_call list"

section \<open>Generators\<close>

text \<open>
  A generator of the source is the sequence of posts it yields, the page requests it
  issues, and how it ends: it returns, it raises, or (the pagination loop has no bound
  of its own) it is still running when the fuel of the model is spent. The generators
  here read the global state once, before their first \<^verbatim>\<open>yield\<close>, and the public
  endpoint answers by the request alone, so what a generator yields does not depend on
  what its consumer does between two pulls.
\<close>

datatype ending = Finished | Raised pyexn | OutOfFuel

record gen =
  yielded :: "pydict list"
  requests :: "request list"
  ending :: ending

definition emit :: "pydict list \<Rightarrow> request list \<Rightarrow> gen \<Rightarrow> gen" where
  "emit ps rs g = g\<lparr>yielded := ps @ yielded g, requests := rs @ requests g\<rparr>"

definition stop :: "ending \<Rightarrow> gen" where
  "stop e = \<lparr>yielded = [], requests = [], ending = e\<rparr>"

section \<open>The public transport\<close>

definition format_timestamp :: "env \<Rightarrow> pyval \<Rightarrow> pyexn + pyval" where
  "format_timestamp env v =
     (case v of
        PyNum n \<Rightarrow> (case utcfromtimestamp env n of
                      Some s \<Rightarrow> Inr (PyStr s) | None \<Rightarrow> Inl ValueError)
      | PyBool b \<Rightarrow> (case utcfromtimestamp env (if b then 1 else 0) of
                      Some s \<Rightarrow> Inr (PyStr s) | None \<Rightarrow> Inl ValueError)
      | _ \<Rightarrow> Inl TypeError)"

text \<open>The body of \<^verbatim>\<open>for post in posts\<close> in \<^verbatim>\<open>fetch_subreddit_posts_public\<close>, up
  to the \<^verbatim>\<open>yield\<close>: an exception, no post (the score is below the minimum), or the
  post to yield.\<close>

definition public_item :: "env \<Rightarrow> string \<Rightarrow> pyval \<Rightarrow> pyexn + pydict option" where
  "public_item env subreddit post =
     bindE (py_get post ''data'' (PyDict [])) (\<lambda>post_data.
     bindE (py_get post_data ''score'' (PyNum 0)) (\<lambda>score.
     bindE (py_ge score (of_int MIN_SCORE)) (\<lambda>accepted.
     if accepted then
       bindE (py_get post_data ''created_utc'' (PyNum 0)) (\<lambda>created_utc.
       bindE (if truthy created_utc then format_timestamp env created_utc else Inr PyNone)
         (\<lambda>created_at.
       bindE (py_get post_data ''id'' PyNone) (\<lambda>pid.
       bindE (py_get post_data ''title'' PyNone) (\<lambda>title.
       bindE (py_get post_data ''selftext'' (PyStr [])) (\<lambda>selftext0.
       bindE (py_slice selftext0 2000) (\<lambda>selftext.
       bindE (py_get post_data ''num_comments'' (PyNum 0)) (\<lambda>num_comments.
       bindE (py_get post_data ''permalink'' PyNone) (\<lambda>permalink.
       bindE (py_get post_data ''author'' PyNone) (\<lambda>author.
       bindE (py_get post_data ''upvote_ratio'' (PyNum 0)) (\<lambda>upvote_ratio.
       Inr (Some
         [(''id'', pid),
          (''subreddit'', PyStr subreddit),
          (''title'', title),
          (''selftext'', selftext),
          (''score'', score),
          (''num_comments'', num_comments),
          (''created_utc'', created_utc),
          (''created_at'', created_at),
          (''url'', PyStr (''https://reddit.com'' @ py_str env permalink)),
          (''author'', author),
          (''upvote_ratio'', upvote_ratio)])))))))))))
     else Inr None)))"

text \<open>The \<^verbatim>\<open>for\<close> loop over one page: the posts yielded, in order, and the
  exception that ended the loop, if one did.\<close>

fun public_items :: "env \<Rightarrow> string \<Rightarrow> pyval list \<Rightarrow> pydict list \<times> pyexn option" where
  "public_items env subreddit [] = ([], None)"
| "public_items env subreddit (post # posts) =
     (case public_item env subreddit post of
        Inl e \<Rightarrow> ([], Some e)
      | Inr None \<Rightarrow> public_items env subreddit posts
      | Inr (Some p) \<Rightarrow>
          (case public_items env subreddit posts of (ps, e) \<Rightarrow> (p # ps, e)))"

text \<open>\<^verbatim>\<open>data.get("data", {}).get(key, default)\<close>.\<close>

definition page_field :: "pyval \<Rightarrow> string \<Rightarrow> pyval \<Rightarrow> pyexn + pyval" where
  "page_field data k d = bindE (py_get data ''data'' (PyDict [])) (\<lambda>inner. py_get inner k d)"

text \<open>The \<^verbatim>\<open>while total_fetched < limit\<close> loop, from the state \<open>(after,
  total_fetched)\<close>. Each turn issues one page request; \<^verbatim>\<open>time.sleep(1)\<close> between
  two turns changes no value.\<close>

fun public_loop ::
  "env \<Rightarrow> nat \<Rightarrow> string \<Rightarrow> string \<Rightarrow> int \<Rightarrow> pyval \<Rightarrow> int \<Rightarrow> gen" where
  "public_loop env 0 subreddit time_filter limit after total_fetched =
     stop (if total_fetched < limit then OutOfFuel else Finished)"
| "public_loop env (Suc fuel) subreddit time_filter limit after total_fetched =
     (if total_fetched < limit then
        (let req = GetPosts subreddit time_filter (min (limit - total_fetched) 100)
                     (if truthy after then Some after else None)
         in case requests_get env req of
              Fails \<Rightarrow> emit [] [req] (stop Finished)
            | Body data \<Rightarrow>
               (case page_field data ''children'' (PyList []) of
                  Inl e \<Rightarrow> emit [] [req] (stop (Raised e))
                | Inr posts \<Rightarrow>
                   if \<not> truthy posts then emit [] [req] (stop Finished)
                   else
                    (case py_iter posts of
                       Inl e \<Rightarrow> emit [] [req] (stop (Raised e))
                     | Inr items \<Rightarrow>
                        (case public_items env subreddit items of
                           (ps, Some e) \<Rightarrow> emit ps [req] (stop (Raised e))
                         | (ps, None) \<Rightarrow>
                            (case page_field data ''after'' PyNone of
                               Inl e \<Rightarrow> emit ps [req] (stop (Raised e))
                             | Inr after' \<Rightarrow>
                                if \<not> truthy after' then emit ps [req] (stop Finished)
                                else emit ps [req]
                                  (public_loop env fuel subreddit time_filter limit after'
                                     (total_fetched + int (length ps))))))))
      else stop Finished)"

definition fetch_subreddit_posts_public ::
  "env \<Rightarrow> nat \<Rightarrow> string \<Rightarrow> string \<Rightarrow> int \<Rightarrow> gen" where
  "fetch_subreddit_posts_public env fuel subreddit time_filter limit =
     public_loop env fuel subreddit time_filter limit PyNone 0"

text \<open>\<^verbatim>\<open>fetch_top_comment_public\<close>. Only a \<^verbatim>\<open>requests.RequestException\<close> is
  caught; whatever the handling of the body raises goes to the caller (\<open>Inl\<close>).\<close>

definition comment_of_body :: "pyval \<Rightarrow> pyexn + pydict option" where
  "comment_of_body data =
     bindE (py_len data) (\<lambda>n.
     if 1 < n then
       bindE (py_index data 1) (\<lambda>second.
       bindE (page_field second ''children'' (PyList [])) (\<lambda>comments.
       if truthy comments then
         bindE (py_index comments 0) (\<lambda>first.
         bindE (py_get first ''kind'' PyNone) (\<lambda>kind.
         if kind = PyStr ''t1'' then
           bindE (py_get first ''data'' (PyDict [])) (\<lambda>comment_data.
           bindE (py_get comment_data ''id'' PyNone) (\<lambda>cid.
           bindE (py_get comment_data ''body'' (PyStr [])) (\<lambda>body0.
           bindE (py_slice body0 1000) (\<lambda>body.
           bindE (py_get comment_data ''score'' (PyNum 0)) (\<lambda>score.
           bindE (py_get comment_data ''author'' PyNone) (\<lambda>author.
           Inr (Some
             [(''comment_id'', cid),
              (''comment_body'', body),
              (''comment_score'', score),
              (''comment_author'', author)])))))))
         else Inr None))
       else Inr None))
     else Inr None)"

definition fetch_top_comment_public :: "env \<Rightarrow> pyval \<Rightarrow> string \<Rightarrow> pyexn + pydict option" where
  "fetch_top_comment_public env post_id subreddit =
     (case requests_get env (GetComments subreddit post_id) of
        Fails \<Rightarrow> Inr None
      | Body data \<Rightarrow> comment_of_body data)"

section \<open>The authenticated transport\<close>

text \<open>\<^verbatim>\<open>get_reddit_client\<close>. The global is assigned by the constructor call, before
  the connection test \<^verbatim>\<open>user.me()\<close> runs.\<close>

definition get_reddit_client :: "env \<Rightarrow> world \<Rightarrow> client option \<times> world" where
  "get_reddit_client env w =
     (if \<not> REDDIT_API_ENABLED env \<or> \<not> PRAW_AVAILABLE env then (None, w)
      else
        (case reddit_instance w of
           None \<Rightarrow>
             (let w1 = w\<lparr>praw_log := praw_log w @ [NewReddit]\<rparr> in
              case praw_Reddit env (praw_log w) of
                None \<Rightarrow> (None, w1)
              | Some c \<Rightarrow>
                  (let w2 = w1\<lparr>reddit_instance := Some c,
                               praw_log := praw_log w1 @ [UserMe c]\<rparr>
                   in if user_me env (praw_log w1) c then (Some c, w2) else (None, w2)))
         | Some c \<Rightarrow> (Some c, w)))"

definition praw_post :: "string \<Rightarrow> submission \<Rightarrow> string \<Rightarrow> pydict" where
  "praw_post subreddit post created_at =
     [(''id'', PyStr (s_id post)),
      (''subreddit'', PyStr subreddit),
      (''title'', PyStr (s_title post)),
      (''selftext'', PyStr (take 2000 (case s_selftext post of None \<Rightarrow> [] | Some t \<Rightarrow> t))),
      (''score'', PyNum (of_int (s_score post))),
      (''num_comments'', PyNum (of_int (s_num_comments post))),
      (''created_utc'', PyNum (s_created_utc post)),
      (''created_at'', PyStr created_at),
      (''url'', PyStr (''https://reddit.com'' @ s_permalink post)),
      (''author'', PyStr (case s_author post of Some a \<Rightarrow> a | None \<Rightarrow> ''[deleted]'')),
      (''upvote_ratio'', PyNum (s_upvote_ratio post))]"

text \<open>The \<^verbatim>\<open>for post in sub.top(...)\<close> loop inside the \<^verbatim>\<open>try\<close>: the posts
  yielded, and whether an exception (of the listing, or of \<^verbatim>\<open>utcfromtimestamp\<close>)
  ended it.\<close>

fun praw_items :: "env \<Rightarrow> string \<Rightarrow> top_item list \<Rightarrow> pydict list \<times> bool" where
  "praw_items env subreddit [] = ([], False)"
| "praw_items env subreddit (TopRaises # rest) = ([], True)"
| "praw_items env subreddit (Item post # rest) =
     (if MIN_SCORE \<le> s_score post then
        (case utcfromtimestamp env (s_created_utc post) of
           None \<Rightarrow> ([], True)
         | Some created_at \<Rightarrow>
             (case praw_items env subreddit rest of
                (ps, failed) \<Rightarrow> (praw_post subreddit post created_at # ps, failed)))
      else praw_items env subreddit rest)"

definition fetch_subreddit_posts_praw ::
  "env \<Rightarrow> nat \<Rightarrow> string \<Rightarrow> string \<Rightarrow> int \<Rightarrow> world \<Rightarrow> gen \<times> world" where
  "fetch_subreddit_posts_praw env fuel subreddit time_filter limit w =
     (case get_reddit_client env w of
        (None, w1) \<Rightarrow> (fetch_subreddit_posts_public env fuel subreddit time_filter limit, w1)
      | (Some reddit, w1) \<Rightarrow>
          (let w2 = w1\<lparr>praw_log := praw_log w1 @ [CallTop reddit subreddit time_filter limit]\<rparr>
           in case praw_items env subreddit
                     (sub_top env (praw_log w1) reddit subreddit time_filter limit) of
                (ps, True) \<Rightarrow>
                  (emit ps [] (fetch_subreddit_posts_public env fuel subreddit time_filter limit),
                   w2)
              | (ps, False) \<Rightarrow> (emit ps [] (stop Finished), w2)))"

definition praw_top_comment :: "praw_comment \<Rightarrow> pydict" where
  "praw_top_comment top_comment =
     [(''comment_id'', PyStr (c_id top_comment)),
      (''comment_body'',
         PyStr (take 1000 (case c_body top_comment of None \<Rightarrow> [] | Some t \<Rightarrow> t))),
      (''comment_score'', PyNum (of_int (c_score top_comment))),
      (''comment_author'',
         PyStr (case c_author top_comment of Some a \<Rightarrow> a | None \<Rightarrow> ''[deleted]''))]"

definition fetch_top_comment_praw ::
  "env \<Rightarrow> pyval \<Rightarrow> string \<Rightarrow> world \<Rightarrow> (pyexn + pydict option) \<times> world" where
  "fetch_top_comment_praw env post_id subreddit w =
     (case get_reddit_client env w of
        (None, w1) \<Rightarrow> (fetch_top_comment_public env post_id subreddit, w1)
      | (Some reddit, w1) \<Rightarrow>
          (let w2 = w1\<lparr>praw_log := praw_log w1 @ [CallSubmission reddit post_id]\<rparr>
           in case submission_comments env (praw_log w1) reddit post_id of
                None \<Rightarrow> (Inr None, w2)
              | Some [] \<Rightarrow> (Inr None, w2)
              | Some (top_comment # _) \<Rightarrow> (Inr (Some (praw_top_comment top_comment)), w2)))"

section \<open>The main API\<close>

definition fetch_subreddit_posts ::
  "env \<Rightarrow> nat \<Rightarrow> string \<Rightarrow> string \<Rightarrow> int \<Rightarrow> world \<Rightarrow> gen \<times> world" where
  "fetch_subreddit_posts env fuel subreddit time_filter limit w =
     (if REDDIT_API_ENABLED env \<and> PRAW_AVAILABLE env
      then fetch_subreddit_posts_praw env fuel subreddit time_filter limit w
      else (fetch_subreddit_posts_public env fuel subreddit time_filter limit, w))"

definition fetch_top_comment ::
  "env \<Rightarrow> pyval \<Rightarrow> string \<Rightarrow> world \<Rightarrow> (pyexn + pydict option) \<times> world" where
  "fetch_top_comment env post_id subreddit w =
     (if REDDIT_API_ENABLED env \<and> PRAW_AVAILABLE env
      then fetch_top_comment_praw env post_id subreddit w
      else (fetch_top_comment_public env post_id subreddit, w))"

text \<open>What a call of the two entry points comes to: it returns a value and leaves
  a state, an exception leaves it, or it is still running when the fuel is spent.\<close>

datatype 'a result = Returns 'a world | Raises pyexn | Diverges

text \<open>The block under \<^verbatim>\<open>if with_comments:\<close>: the top comment of the post is
  fetched and, when there is one, merged into the post.\<close>

definition add_comment ::
  "env \<Rightarrow> string \<Rightarrow> pydict \<Rightarrow> world \<Rightarrow> (pyexn + pydict) \<times> world" where
  "add_comment env subreddit post w =
     (case dict_item post ''id'' of
        Inl e \<Rightarrow> (Inl e, w)
      | Inr pid \<Rightarrow>
          (case fetch_top_comment env pid subreddit w of
             (Inl e, w1) \<Rightarrow> (Inl e, w1)
           | (Inr None, w1) \<Rightarrow> (Inr post, w1)
           | (Inr (Some top_comment), w1) \<Rightarrow>
               (Inr (if top_comment \<noteq> [] then dict_update post top_comment else post), w1)))"

text \<open>The inner \<^verbatim>\<open>for post in fetch_subreddit_posts(...)\<close> of
  \<^verbatim>\<open>fetch_all_posts\<close>, over the posts the generator yields.\<close>

fun all_posts_inner ::
  "env \<Rightarrow> bool \<Rightarrow> string \<Rightarrow> pydict list \<Rightarrow> pydict list \<Rightarrow> world \<Rightarrow> pydict list result" where
  "all_posts_inner env with_comments subreddit [] all_posts w = Returns all_posts w"
| "all_posts_inner env with_comments subreddit (post # rest) all_posts w =
     (if with_comments then
        (case add_comment env subreddit post w of
           (Inl e, w1) \<Rightarrow> Raises e
         | (Inr post1, w1) \<Rightarrow>
             all_posts_inner env with_comments subreddit rest (all_posts @ [post1]) w1)
      else all_posts_inner env with_comments subreddit rest (all_posts @ [post]) w)"

text \<open>The outer \<^verbatim>\<open>for subreddit in SUBREDDITS\<close>. Once the posts a generator
  yielded are consumed, its ending decides: the next community, the exception, or no
  return.\<close>

fun all_posts_outer ::
  "env \<Rightarrow> nat \<Rightarrow> bool \<Rightarrow> int \<Rightarrow> string list \<Rightarrow> pydict list \<Rightarrow> world \<Rightarrow> pydict list result" where
  "all_posts_outer env fuel with_comments limit_per_sub [] all_posts w = Returns all_posts w"
| "all_posts_outer env fuel with_comments limit_per_sub (subreddit # subs) all_posts w =
     (case fetch_subreddit_posts env fuel subreddit TIME_FILTER limit_per_sub w of
        (g, w1) \<Rightarrow>
          (case all_posts_inner env with_comments subreddit (yielded g) all_posts w1 of
             Returns all_posts1 w2 \<Rightarrow>
               (case ending g of
                  Finished \<Rightarrow>
                    all_posts_outer env fuel with_comments limit_per_sub subs all_posts1 w2
                | Raised e \<Rightarrow> Raises e
                | OutOfFuel \<Rightarrow> Diverges)
           | Raises e \<Rightarrow> Raises e
           | Diverges \<Rightarrow> Diverges))"

definition fetch_all_posts :: "env \<Rightarrow> nat \<Rightarrow> bool \<Rightarrow> int \<Rightarrow> world \<Rightarrow> pydict list result" where
  "fetch_all_posts env fuel with_comments limit_per_sub w =
     all_posts_outer env fuel with_comments limit_per_sub SUBREDDITS [] w"

text \<open>\<^verbatim>\<open>fetch_new_posts\<close>: the same two loops, with the test on the creation time
  around the body.\<close>

fun new_posts_inner ::
  "env \<Rightarrow> rat \<Rightarrow> bool \<Rightarrow> string \<Rightarrow> pydict list \<Rightarrow> pydict list \<Rightarrow> world \<Rightarrow> pydict list result"
  where
  "new_posts_inner env cutoff_time with_comments subreddit [] all_posts w = Returns all_posts w"
| "new_posts_inner env cutoff_time with_comments subreddit (post # rest) all_posts w =
     (case py_ge (dict_get post ''created_utc'' (PyNum 0)) cutoff_time of
        Inl e \<Rightarrow> Raises e
      | Inr True \<Rightarrow>
          (if with_comments then
             (case add_comment env subreddit post w of
                (Inl e, w1) \<Rightarrow> Raises e
              | (Inr post1, w1) \<Rightarrow>
                  new_posts_inner env cutoff_time with_comments subreddit rest
                    (all_posts @ [post1]) w1)
           else new_posts_inner env cutoff_time with_comments subreddit rest
                  (all_posts @ [post]) w)
      | Inr False \<Rightarrow>
          new_posts_inner env cutoff_time with_comments subreddit rest all_posts w)"

fun new_posts_outer ::
  "env \<Rightarrow> nat \<Rightarrow> rat \<Rightarrow> bool \<Rightarrow> string list \<Rightarrow> pydict list \<Rightarrow> world \<Rightarrow> pydict list result"
  where
  "new_posts_outer env fuel cutoff_time with_comments [] all_posts w = Returns all_posts w"
| "new_posts_outer env fuel cutoff_time with_comments (subreddit # subs) all_posts w =
     (case fetch_subreddit_posts env fuel subreddit ''day'' 100 w of
        (g, w1) \<Rightarrow>
          (case new_posts_inner env cutoff_time with_comments subreddit (yielded g)
                  all_posts w1 of
             Returns all_posts1 w2 \<Rightarrow>
               (case ending g of
                  Finished \<Rightarrow> new_posts_outer env fuel cutoff_time with_comments subs all_posts1 w2
                | Raised e \<Rightarrow> Raises e
                | OutOfFuel \<Rightarrow> Diverges)
           | Raises e \<Rightarrow> Raises e
           | Diverges \<Rightarrow> Diverges))"

definition fetch_new_posts :: "env \<Rightarrow> nat \<Rightarrow> int \<Rightarrow> bool \<Rightarrow> world \<Rightarrow> pydict list result" where
  "fetch_new_posts env fuel since_hours with_comments w =
     new_posts_outer env fuel (time_time env - of_int (since_hours * 3600)) with_comments
       SUBREDDITS [] w"

section \<open>Notions the properties are stated with\<close>

text \<open>The value a call comes to, without the state it leaves.\<close>

definition value_of :: "'a result \<Rightarrow> (pyexn + 'a) option" where
  "value_of r = (case r of Returns x w \<Rightarrow> Some (Inr x) | Raises e \<Rightarrow> Some (Inl e) | Diverges \<Rightarrow> None)"

text \<open>The score of a post meets the minimum; its body, and the body of its
  comment, are within their caps; its author is a string.\<close>

definition score_ok :: "pydict \<Rightarrow> bool" where
  "score_ok p = (case map_of p ''score'' of Some (PyNum n) \<Rightarrow> of_int MIN_SCORE \<le> n | _ \<Rightarrow> False)"

definition len_at_most :: "nat \<Rightarrow> pyval \<Rightarrow> bool" where
  "len_at_most cap v = (case py_len v of Inr n \<Rightarrow> n \<le> cap | Inl e \<Rightarrow> False)"

definition selftext_ok :: "pydict \<Rightarrow> bool" where
  "selftext_ok p = (case map_of p ''selftext'' of Some v \<Rightarrow> len_at_most 2000 v | None \<Rightarrow> False)"

definition comment_body_ok :: "pydict \<Rightarrow> bool" where
  "comment_body_ok c = (case map_of c ''comment_body'' of Some v \<Rightarrow> len_at_most 1000 v | None \<Rightarrow> False)"

definition is_str :: "pyval option \<Rightarrow> bool" where
  "is_str v = (case v of Some (PyStr s) \<Rightarrow> True | _ \<Rightarrow> False)"

text \<open>The items and the continuation token of a page, as the loop reads them.\<close>

definition page_items :: "pyval \<Rightarrow> pyval list" where
  "page_items pg =
     (case page_field pg ''children'' (PyList []) of Inr (PyList items) \<Rightarrow> items | _ \<Rightarrow> [])"

definition page_token :: "pyval \<Rightarrow> pyval" where
  "page_token pg = (case page_field pg ''after'' PyNone of Inr tok \<Rightarrow> tok | Inl e \<Rightarrow> PyNone)"

text \<open>
  Bodies of the expected shape. An item of a page is an object whose \<^verbatim>\<open>data\<close> is an
  object with a numeric \<^verbatim>\<open>score\<close>, a \<^verbatim>\<open>created_utc\<close> that is zero or a number the
  time library formats, and a string \<^verbatim>\<open>selftext\<close> (each may be missing: the code has
  a default). A page is an object whose \<^verbatim>\<open>data\<close> is an object whose \<^verbatim>\<open>children\<close> is
  a list of such items. The body of a comment request is a list whose second element,
  when there is one, is such an object of comment wrappers; only the first wrapper is
  read, and only when its kind is \<^verbatim>\<open>t1\<close>.
\<close>

definition wf_post_data :: "env \<Rightarrow> pydict \<Rightarrow> bool" where
  "wf_post_data env d =
     ((case dict_get d ''score'' (PyNum 0) of PyNum sc \<Rightarrow> True | _ \<Rightarrow> False) \<and>
      (case dict_get d ''created_utc'' (PyNum 0) of
         PyNum t \<Rightarrow> t = 0 \<or> utcfromtimestamp env t \<noteq> None
       | _ \<Rightarrow> False) \<and>
      (case dict_get d ''selftext'' (PyStr []) of PyStr s \<Rightarrow> True | _ \<Rightarrow> False))"

definition wf_item :: "env \<Rightarrow> pyval \<Rightarrow> bool" where
  "wf_item env x =
     (case x of
        PyDict kvs \<Rightarrow>
          (case dict_get kvs ''data'' (PyDict []) of PyDict d \<Rightarrow> wf_post_data env d | _ \<Rightarrow> False)
      | _ \<Rightarrow> False)"

definition wf_page :: "env \<Rightarrow> pyval \<Rightarrow> bool" where
  "wf_page env pg =
     (case pg of
        PyDict kvs \<Rightarrow>
          (case dict_get kvs ''data'' (PyDict []) of
             PyDict d \<Rightarrow>
               (case dict_get d ''children'' (PyList []) of
                  PyList items \<Rightarrow> list_all (wf_item env) items
                | _ \<Rightarrow> False)
           | _ \<Rightarrow> False)
      | _ \<Rightarrow> False)"

definition wf_wrapper :: "pyval \<Rightarrow> bool" where
  "wf_wrapper c =
     (case c of
        PyDict kvs \<Rightarrow>
          (if dict_get kvs ''kind'' PyNone = PyStr ''t1'' then
             (case dict_get kvs ''data'' (PyDict []) of
                PyDict cd \<Rightarrow> (case dict_get cd ''body'' (PyStr []) of PyStr s \<Rightarrow> True | _ \<Rightarrow> False)
              | _ \<Rightarrow> False)
           else True)
      | _ \<Rightarrow> False)"

definition wf_comments :: "pyval \<Rightarrow> bool" where
  "wf_comments data =
     (case data of
        PyList xs \<Rightarrow>
          (if 1 < length xs then
             (case xs ! 1 of
                PyDict kvs \<Rightarrow>
                  (case dict_get kvs ''data'' (PyDict []) of
                     PyDict d \<Rightarrow>
                       (case dict_get d ''children'' (PyList []) of
                          PyList cs \<Rightarrow> (case cs of [] \<Rightarrow> True | c # rest \<Rightarrow> wf_wrapper c)
                        | _ \<Rightarrow> False)
                   | _ \<Rightarrow> False)
              | _ \<Rightarrow> False)
           else True)
      | _ \<Rightarrow> False)"

text \<open>The public endpoint is well-behaved when every request fails with a
  \<^verbatim>\<open>RequestException\<close> or is answered by a body of the expected shape.\<close>

definition wf_response :: "env \<Rightarrow> request \<Rightarrow> bool" where
  "wf_response env r =
     (case requests_get env r of
        Fails \<Rightarrow> True
      | Body data \<Rightarrow>
          (case r of
             GetPosts subreddit t n cur \<Rightarrow> wf_page env data
           | GetComments subreddit post_id \<Rightarrow> wf_comments data))"

definition wf_endpoint :: "env \<Rightarrow> bool" where
  "wf_endpoint env = (\<forall>r. wf_response env r)"

text \<open>The score filter in the spec's words: an item is accepted when its score is
  at least the configured minimum. \<open>post_of\<close> is the post the code builds from an
  accepted item, \<open>page_posts\<close> the score-filtered posts of a page.\<close>

definition item_score :: "pyval \<Rightarrow> rat" where
  "item_score x =
     (case x of
        PyDict kvs \<Rightarrow>
          (case dict_get kvs ''data'' (PyDict []) of
             PyDict d \<Rightarrow> (case dict_get d ''score'' (PyNum 0) of PyNum n \<Rightarrow> n | _ \<Rightarrow> 0)
           | _ \<Rightarrow> 0)
      | _ \<Rightarrow> 0)"

definition accepted :: "pyval \<Rightarrow> bool" where
  "accepted x = (of_int MIN_SCORE \<le> item_score x)"

definition post_of :: "env \<Rightarrow> string \<Rightarrow> pyval \<Rightarrow> pydict" where
  "post_of env subreddit x = (case public_item env subreddit x of Inr (Some p) \<Rightarrow> p | _ \<Rightarrow> [])"

definition page_posts :: "env \<Rightarrow> string \<Rightarrow> pyval \<Rightarrow> pydict list" where
  "page_posts env subreddit pg = map (post_of env subreddit) (filter accepted (page_items pg))"

text \<open>
  A run of pages. \<open>served\<close>: the endpoint answers the request at cursor \<open>cur\<close>
  (whatever its page size) with the first page, and the request at each page's token
  with the next page. \<open>paged\<close>: every page but the last has items and a token, the
  last has no token. \<open>below_limit\<close>: when each page is requested, fewer than \<open>limit\<close>
  posts have been accepted.
\<close>

fun served :: "env \<Rightarrow> string \<Rightarrow> string \<Rightarrow> pyval option \<Rightarrow> pyval list \<Rightarrow> bool" where
  "served env subreddit t cur [] = True"
| "served env subreddit t cur (pg # pgs) =
     ((\<forall>n. requests_get env (GetPosts subreddit t n cur) = Body pg) \<and>
      served env subreddit t (Some (page_token pg)) pgs)"

fun paged :: "pyval list \<Rightarrow> bool" where
  "paged [] = False"
| "paged [pg] = (\<not> truthy (page_token pg))"
| "paged (pg # pgs) = (page_items pg \<noteq> [] \<and> truthy (page_token pg) \<and> paged pgs)"

fun below_limit :: "int \<Rightarrow> int \<Rightarrow> pyval list \<Rightarrow> bool" where
  "below_limit limit count [] = True"
| "below_limit limit count (pg # pgs) =
     (count < limit \<and>
      below_limit limit (count + int (length (filter accepted (page_items pg)))) pgs)"

definition cursor_of :: "request \<Rightarrow> pyval option" where
  "cursor_of r = (case r of GetPosts subreddit t n cur \<Rightarrow> cur | GetComments subreddit post_id \<Rightarrow> None)"

text \<open>\<open>has_more\<close>: a page with items and a token, after which the loop goes on.
  \<open>page_requests\<close>: the requests a run of pages takes, each asking for
  \<open>min (limit - count) 100\<close> items at the cursor the page before gave.
  \<open>next_cursor\<close>: the cursor after a run of pages.\<close>

definition has_more :: "pyval \<Rightarrow> bool" where
  "has_more pg = (page_items pg \<noteq> [] \<and> truthy (page_token pg))"

fun page_requests ::
  "string \<Rightarrow> string \<Rightarrow> int \<Rightarrow> pyval option \<Rightarrow> int \<Rightarrow> pyval list \<Rightarrow> request list" where
  "page_requests subreddit t limit cur count [] = []"
| "page_requests subreddit t limit cur count (pg # pgs) =
     GetPosts subreddit t (min (limit - count) 100) cur #
     page_requests subreddit t limit (Some (page_token pg))
       (count + int (length (filter accepted (page_items pg)))) pgs"

fun next_cursor :: "pyval option \<Rightarrow> pyval list \<Rightarrow> pyval option" where
  "next_cursor cur [] = cur"
| "next_cursor cur (pg # pgs) = next_cursor (Some (page_token pg)) pgs"

text \<open>A field of the \<^verbatim>\<open>data\<close> of an item of a response (\<^verbatim>\<open>None\<close> when it is
  missing), and a field of the first comment wrapper of the body of a comment
  request.\<close>

definition item_field :: "pyval \<Rightarrow> string \<Rightarrow> pyval" where
  "item_field x k =
     (case x of
        PyDict kvs \<Rightarrow>
          (case dict_get kvs ''data'' (PyDict []) of PyDict d \<Rightarrow> dict_get d k PyNone | _ \<Rightarrow> PyNone)
      | _ \<Rightarrow> PyNone)"

definition comment_field :: "pyval \<Rightarrow> string \<Rightarrow> pyval" where
  "comment_field data k =
     (case py_index data 1 of
        Inr second \<Rightarrow> (case page_items second of c # rest \<Rightarrow> item_field c k | [] \<Rightarrow> PyNone)
      | Inl e \<Rightarrow> PyNone)"

text \<open>The keys a top comment brings into a post.\<close>

definition comment_keys :: "string list" where
  "comment_keys = [''comment_id'', ''comment_body'', ''comment_score'', ''comment_author'']"

text \<open>The bodies of a returned post: its own, and its comment's when it has one.\<close>

definition bodies_ok :: "pydict \<Rightarrow> bool" where
  "bodies_ok p =
     (selftext_ok p \<and>
      (case map_of p ''comment_body'' of None \<Rightarrow> True | Some v \<Rightarrow> len_at_most 1000 v))"

text \<open>A top comment: a \<^verbatim>\<open>dict\<close> of the four comment keys whose body is within
  its cap.\<close>

definition is_comment :: "pydict \<Rightarrow> bool" where
  "is_comment c = (map fst c = comment_keys \<and> comment_body_ok c)"

text \<open>A post as a generator yields it: its body within the cap, and no comment
  yet.\<close>

definition fresh_ok :: "pydict \<Rightarrow> bool" where
  "fresh_ok p = (selftext_ok p \<and> map_of p ''comment_body'' = None)"

text \<open>The body of the inner loop of \<^verbatim>\<open>fetch_all_posts\<close>, before the
  \<^verbatim>\<open>append\<close>: the post, enriched when comments are asked for.\<close>

definition enrich ::
  "env \<Rightarrow> bool \<Rightarrow> string \<Rightarrow> pydict \<Rightarrow> world \<Rightarrow> (pyexn + pydict) \<times> world" where
  "enrich env with_comments subreddit post w =
     (if with_comments then add_comment env subreddit post w else (Inr post, w))"

text \<open>Two calls come to the same: both return the same value, leaving states that
  are related by \<open>R\<close>, or both raise the same exception, or neither returns.\<close>

fun sim :: "(world \<Rightarrow> world \<Rightarrow> bool) \<Rightarrow> 'a result \<Rightarrow> 'a result \<Rightarrow> bool" where
  "sim R (Returns x w) (Returns y w') = (x = y \<and> R w w')"
| "sim R (Raises e) (Raises e') = (e = e')"
| "sim R Diverges Diverges = True"
| "sim R _ _ = False"

text \<open>A post has an \<^verbatim>\<open>id\<close> key; its creation time is a number.\<close>

definition has_id :: "pydict \<Rightarrow> bool" where
  "has_id p = (map_of p ''id'' \<noteq> None)"

definition has_time :: "pydict \<Rightarrow> bool" where
  "has_time p = (case map_of p ''created_utc'' of Some (PyNum t) \<Rightarrow> True | _ \<Rightarrow> False)"

text \<open>
  \<^verbatim>\<open>harvest_recent\<close> in the words of the specification: the posts of the day window are
  fetched, those whose creation time is at or after the cutoff are kept, and the
  kept posts are handled as \<^verbatim>\<open>harvest_all\<close> handles its posts. \<open>day_fetch\<close> is what
  the day-window fetches of the communities yield, in order, when no comment is
  fetched in between.
\<close>

definition at_or_after :: "rat \<Rightarrow> pydict \<Rightarrow> bool" where
  "at_or_after cutoff p =
     (case dict_get p ''created_utc'' (PyNum 0) of PyNum t \<Rightarrow> cutoff \<le> t | _ \<Rightarrow> False)"

fun harvest_recent_spec ::
  "env \<Rightarrow> nat \<Rightarrow> rat \<Rightarrow> bool \<Rightarrow> string list \<Rightarrow> pydict list \<Rightarrow> world \<Rightarrow> pydict list result"
  where
  "harvest_recent_spec env fuel cutoff with_comments [] all_posts w = Returns all_posts w"
| "harvest_recent_spec env fuel cutoff with_comments (subreddit # subs) all_posts w =
     (case fetch_subreddit_posts env fuel subreddit ''day'' 100 w of
        (g, w1) \<Rightarrow>
          (case all_posts_inner env with_comments subreddit
                  (filter (at_or_after cutoff) (yielded g)) all_posts w1 of
             Returns all_posts1 w2 \<Rightarrow>
               (case ending g of
                  Finished \<Rightarrow> harvest_recent_spec env fuel cutoff with_comments subs all_posts1 w2
                | Raised e \<Rightarrow> Raises e
                | OutOfFuel \<Rightarrow> Diverges)
           | Raises e \<Rightarrow> Raises e
           | Diverges \<Rightarrow> Diverges))"

fun day_fetch :: "env \<Rightarrow> nat \<Rightarrow> string list \<Rightarrow> world \<Rightarrow> pydict list \<times> world" where
  "day_fetch env fuel [] w = ([], w)"
| "day_fetch env fuel (subreddit # subs) w =
     (case fetch_subreddit_posts env fuel subreddit ''day'' 100 w of
        (g, w1) \<Rightarrow> (case day_fetch env fuel subs w1 of (ps, w2) \<Rightarrow> (yielded g @ ps, w2)))"

section \<open>Concrete inputs\<close>

text \<open>The inputs the examples below are evaluated at.\<close>

definition w0 :: world where
  "w0 = \<lparr>reddit_instance = None, praw_log = []\<rparr>"

definition example_item :: "string \<Rightarrow> rat \<Rightarrow> pyval" where
  "example_item pid sc =
     PyDict [(''kind'', PyStr ''t3''),
             (''data'', PyDict [(''id'', PyStr pid), (''score'', PyNum sc)])]"

definition example_page :: "pyval list \<Rightarrow> pyval \<Rightarrow> pyval" where
  "example_page items tok =
     PyDict [(''kind'', PyStr ''Listing''),
             (''data'', PyDict [(''children'', PyList items), (''after'', tok)])]"

text \<open>The post the public transport builds from \<open>example_item pid sc\<close>.\<close>

definition example_post :: "string \<Rightarrow> string \<Rightarrow> rat \<Rightarrow> pydict" where
  "example_post subreddit pid sc =
     [(''id'', PyStr pid),
      (''subreddit'', PyStr subreddit),
      (''title'', PyNone),
      (''selftext'', PyStr []),
      (''score'', PyNum sc),
      (''num_comments'', PyNum 0),
      (''created_utc'', PyNum 0),
      (''created_at'', PyNone),
      (''url'', PyStr ''https://reddit.comNone''),
      (''author'', PyNone),
      (''upvote_ratio'', PyNum 0)]"

text \<open>An environment without the authenticated library, over a given endpoint.\<close>

definition public_env :: "(request \<Rightarrow> response) \<Rightarrow> env" where
  "public_env get =
     \<lparr>REDDIT_API_ENABLED = False, PRAW_AVAILABLE = False,
      requests_get = get,
      praw_Reddit = (\<lambda>log. None),
      user_me = (\<lambda>log c. False),
      sub_top = (\<lambda>log c subreddit t n. []),
      submission_comments = (\<lambda>log c post_id. None),
      utcfromtimestamp = (\<lambda>t. Some ''2023-11-14 22:13:20''),
      py_str = (\<lambda>v. case v of PyStr s \<Rightarrow> s | _ \<Rightarrow> ''None''),
      time_time = 1700000000\<rparr>"

text \<open>An endpoint that serves r/vosfinances in two pages: the first to the request
  without a cursor, the second to the request at the cursor \<^verbatim>\<open>abc\<close>. Every other
  request fails.\<close>

definition two_pages :: "pyval \<Rightarrow> response \<Rightarrow> request \<Rightarrow> response" where
  "two_pages first second r =
     (case r of
        GetPosts subreddit t n cur \<Rightarrow>
          (if subreddit = ''vosfinances'' \<and> cur = None then Body first
           else if subreddit = ''vosfinances'' \<and> cur = Some (PyStr ''abc'') then second
           else Fails)
      | GetComments subreddit post_id \<Rightarrow> Fails)"

text \<open>The example of the specification: scores 50, 5, 20 and the token \<^verbatim>\<open>abc\<close>,
  then one item of score 8 and no token.\<close>

definition spec_page1 :: pyval where
  "spec_page1 =
     example_page [example_item ''a'' 50, example_item ''b'' 5, example_item ''c'' 20]
       (PyStr ''abc'')"

definition spec_page2 :: pyval where
  "spec_page2 = example_page [example_item ''d'' 8] PyNone"

definition spec_example_env :: env where
  "spec_example_env = public_env (two_pages spec_page1 (Body spec_page2))"

text \<open>Two pages of one accepted post each.\<close>

definition short_page1 :: pyval where
  "short_page1 = example_page [example_item ''a'' 50] (PyStr ''abc'')"

definition short_page2 :: pyval where
  "short_page2 = example_page [example_item ''b'' 60] PyNone"

definition short_pages_env :: env where
  "short_pages_env = public_env (two_pages short_page1 (Body short_page2))"

text \<open>The first page of the specification's example, then a network failure.\<close>

definition failing_env :: env where
  "failing_env = public_env (two_pages spec_page1 Fails)"

text \<open>An endpoint with one page of one post for r/vosfinances, and one top comment
  for that post.\<close>

definition one_page :: pyval where
  "one_page = example_page [example_item ''a'' 50] PyNone"

definition comments_body :: pyval where
  "comments_body =
     PyList
       [PyDict [(''kind'', PyStr ''Listing'')],
        PyDict [(''kind'', PyStr ''Listing''),
                (''data'', PyDict [(''children'', PyList
                   [PyDict [(''kind'', PyStr ''t1''),
                            (''data'', PyDict [(''id'', PyStr ''c1''),
                                               (''body'', PyStr ''nice''),
                                               (''score'', PyNum 7),
                                               (''author'', PyStr ''alice'')])]])])]]"

definition example_comment :: pydict where
  "example_comment =
     [(''comment_id'', PyStr ''c1''),
      (''comment_body'', PyStr ''nice''),
      (''comment_score'', PyNum 7),
      (''comment_author'', PyStr ''alice'')]"

definition commented_get :: "request \<Rightarrow> response" where
  "commented_get r =
     (case r of
        GetPosts subreddit t n cur \<Rightarrow>
          (if subreddit = ''vosfinances'' \<and> cur = None then Body one_page else Fails)
      | GetComments subreddit post_id \<Rightarrow>
          (if subreddit = ''vosfinances'' \<and> post_id = PyStr ''a'' then Body comments_body
           else Fails))"

definition commented_env :: env where
  "commented_env = public_env commented_get"

text \<open>The same endpoint with the authenticated library configured: the constructor
  returns a client, the connection test passes or raises as \<open>me\<close> says, every
  listing is \<open>listing\<close>, and every comment request raises.\<close>

definition praw_env :: "bool \<Rightarrow> top_item list \<Rightarrow> env" where
  "praw_env me listing =
     commented_env
       \<lparr>REDDIT_API_ENABLED := True, PRAW_AVAILABLE := True,
        praw_Reddit := (\<lambda>log. Some (Client 0)),
        user_me := (\<lambda>log c. me),
        sub_top := (\<lambda>log c subreddit t n. listing)\<rparr>"

definition example_submission :: submission where
  "example_submission =
     \<lparr>s_id = ''a'', s_title = ''Title'', s_selftext = Some ''text'', s_score = 50,
      s_num_comments = 3, s_created_utc = 1700000000,
      s_permalink = ''/r/vosfinances/comments/a/'', s_author = None, s_upvote_ratio = 1\<rparr>"

text \<open>The state after a call whose connection test raised.\<close>

definition w_cached :: world where
  "w_cached = \<lparr>reddit_instance = Some (Client 0), praw_log = [NewReddit, UserMe (Client 0)]\<rparr>"

text \<open>The library is configured and importable, but no client can be
  constructed.\<close>

definition no_client_env :: env where
  "no_client_env = commented_env\<lparr>REDDIT_API_ENABLED := True, PRAW_AVAILABLE := True\<rparr>"

text \<open>One page of three posts with creation times: one inside the last 24 hours
  of the clock of \<open>public_env\<close>, one before, one exactly at the cutoff.\<close>

definition timed_item :: "string \<Rightarrow> rat \<Rightarrow> rat \<Rightarrow> pyval" where
  "timed_item pid sc created =
     PyDict [(''kind'', PyStr ''t3''),
             (''data'', PyDict [(''id'', PyStr pid), (''score'', PyNum sc),
                                (''created_utc'', PyNum created)])]"

definition timed_post :: "string \<Rightarrow> string \<Rightarrow> rat \<Rightarrow> rat \<Rightarrow> pydict" where
  "timed_post subreddit pid sc created =
     [(''id'', PyStr pid),
      (''subreddit'', PyStr subreddit),
      (''title'', PyNone),
      (''selftext'', PyStr []),
      (''score'', PyNum sc),
      (''num_comments'', PyNum 0),
      (''created_utc'', PyNum created),
      (''created_at'', PyStr ''2023-11-14 22:13:20''),
      (''url'', PyStr ''https://reddit.comNone''),
      (''author'', PyNone),
      (''upvote_ratio'', PyNum 0)]"

definition recent_page :: pyval where
  "recent_page =
     example_page
       [timed_item ''a'' 50 1699990000, timed_item ''b'' 40 1699000000,
        timed_item ''c'' 30 1699913600]
       PyNone"

definition recent_get :: "request \<Rightarrow> response" where
  "recent_get r =
     (case r of
        GetPosts subreddit t n cur \<Rightarrow>
          (if subreddit = ''vosfinances'' \<and> cur = None then Body recent_page else Fails)
      | GetComments subreddit post_id \<Rightarrow> Fails)"

definition recent_env :: env where
  "recent_env = public_env recent_get"

text \<open>The endpoint of \<open>commented_env\<close>, except that the body of every comment
  request is the JSON list \<^verbatim>\<open>[1, 2]\<close>.\<close>

definition malformed_get :: "request \<Rightarrow> response" where
  "malformed_get r =
     (case r of
        GetPosts subreddit t n cur \<Rightarrow>
          (if subreddit = ''vosfinances'' \<and> cur = None then Body one_page else Fails)
      | GetComments subreddit post_id \<Rightarrow> Body (PyList [PyNum 1, PyNum 2]))"

definition malformed_env :: env where
  "malformed_env = public_env malformed_get"

section \<open>Facts about the model\<close>

lemma yielded_emit [simp]: "yielded (emit ps rs g) = ps @ yielded g"
  and requests_emit [simp]: "requests (emit ps rs g) = rs @ requests g"
  and ending_emit [simp]: "ending (emit ps rs g) = ending g"
  by (simp_all add: emit_def)

lemma stop_simps [simp]: "yielded (stop e) = []" "requests (stop e) = []" "ending (stop e) = e"
  by (simp_all add: stop_def)

lemma bindE_simps [simp]: "bindE (Inl e) f = Inl e" "bindE (Inr x) f = f x"
  by (simp_all add: bindE_def)

lemma py_get_dict: "py_get (PyDict kvs) k d = Inr (dict_get kvs k d)"
  by (simp add: dict_get_def)

lemma wf_itemD:
  assumes "wf_item env x"
  obtains kvs d sc t s where "x = PyDict kvs" "dict_get kvs ''data'' (PyDict []) = PyDict d"
    "dict_get d ''score'' (PyNum 0) = PyNum sc" "dict_get d ''created_utc'' (PyNum 0) = PyNum t"
    "t = 0 \<or> utcfromtimestamp env t \<noteq> None" "dict_get d ''selftext'' (PyStr []) = PyStr s"
  using assms unfolding wf_item_def wf_post_data_def
  by (auto split: pyval.splits)

lemma public_item_wf:
  assumes "wf_item env x"
  shows "public_item env sub x = Inr (if accepted x then Some (post_of env sub x) else None)"
proof -
  from assms obtain kvs d sc t s where x: "x = PyDict kvs"
    and d: "dict_get kvs ''data'' (PyDict []) = PyDict d"
    and sc: "dict_get d ''score'' (PyNum 0) = PyNum sc"
    and t: "dict_get d ''created_utc'' (PyNum 0) = PyNum t"
    and tok: "t = 0 \<or> utcfromtimestamp env t \<noteq> None"
    and s: "dict_get d ''selftext'' (PyStr []) = PyStr s"
    by (rule wf_itemD)
  have acc: "accepted x = (of_int MIN_SCORE \<le> sc)"
    by (simp add: accepted_def item_score_def x d sc)
  show ?thesis
  proof (cases "of_int MIN_SCORE \<le> sc")
    case False
    then have "public_item env sub x = Inr None"
      by (simp add: public_item_def x py_get_dict d sc del: py_get.simps)
    with False acc show ?thesis by simp
  next
    case True
    from tok have "\<exists>ca. (if truthy (PyNum t) then format_timestamp env (PyNum t) else Inr PyNone) = Inr ca"
      by (auto simp: format_timestamp_def)
    then obtain ca where ca: "(if t \<noteq> 0 then format_timestamp env (PyNum t) else Inr PyNone) = Inr ca"
      by auto
    have "\<exists>p. public_item env sub x = Inr (Some p)"
      using True ca by (simp add: public_item_def x py_get_dict d sc t s del: py_get.simps)
    then obtain p where p: "public_item env sub x = Inr (Some p)" ..
    then have "post_of env sub x = p" by (simp add: post_of_def)
    with p True acc show ?thesis by simp
  qed
qed

lemma public_items_wf:
  "list_all (wf_item env) items \<Longrightarrow>
   public_items env sub items = (map (post_of env sub) (filter accepted items), None)"
  by (induction items) (simp_all add: public_item_wf)

lemma wf_pageD:
  assumes "wf_page env pg"
  shows "page_field pg ''children'' (PyList []) = Inr (PyList (page_items pg))"
    and "list_all (wf_item env) (page_items pg)"
    and "page_field pg ''after'' PyNone = Inr (page_token pg)"
proof -
  from assms obtain kvs d items where pg: "pg = PyDict kvs"
    and d: "dict_get kvs ''data'' (PyDict []) = PyDict d"
    and c: "dict_get d ''children'' (PyList []) = PyList items"
    and wf: "list_all (wf_item env) items"
    unfolding wf_page_def by (auto split: pyval.splits)
  have ch: "page_field pg ''children'' (PyList []) = Inr (PyList items)"
    by (simp add: page_field_def pg py_get_dict d c del: py_get.simps)
  then have items: "page_items pg = items" by (simp add: page_items_def)
  show "page_field pg ''children'' (PyList []) = Inr (PyList (page_items pg))"
    using ch items by simp
  show "list_all (wf_item env) (page_items pg)" using wf items by simp
  have "page_field pg ''after'' PyNone = Inr (dict_get d ''after'' PyNone)"
    by (simp add: page_field_def pg py_get_dict d del: py_get.simps)
  then show "page_field pg ''after'' PyNone = Inr (page_token pg)"
    by (simp add: page_token_def)
qed

lemma public_loop_step:
  assumes "count < limit"
    and "requests_get env (GetPosts sub tf (min (limit - count) 100)
           (if truthy after then Some after else None)) = Body pg"
    and "wf_page env pg"
  shows "public_loop env (Suc fuel) sub tf limit after count =
         emit (page_posts env sub pg)
           [GetPosts sub tf (min (limit - count) 100) (if truthy after then Some after else None)]
           (if has_more pg
            then public_loop env fuel sub tf limit (page_token pg)
                   (count + int (length (filter accepted (page_items pg))))
            else stop Finished)"
proof -
  note wf = wf_pageD [OF assms(3)]
  have items: "public_items env sub (page_items pg) = (page_posts env sub pg, None)"
    using public_items_wf [OF wf(2)] by (simp add: page_posts_def)
  show ?thesis
  proof (cases "page_items pg = []")
    case True
    then show ?thesis
      using assms(1,2) wf(1)
      by (simp add: has_more_def page_posts_def del: py_get.simps)
  next
    case False
    then show ?thesis
      using assms(1,2) wf(1,3) items
      by (simp add: has_more_def page_posts_def del: py_get.simps)
  qed
qed

lemma public_loop_fails:
  assumes "count < limit"
    and "requests_get env (GetPosts sub tf (min (limit - count) 100)
           (if truthy after then Some after else None)) = Fails"
  shows "public_loop env (Suc fuel) sub tf limit after count =
         emit [] [GetPosts sub tf (min (limit - count) 100) (if truthy after then Some after else None)]
           (stop Finished)"
  using assms by simp

lemma public_loop_failing_request:
  "i < length (requests (public_loop env fuel sub tf limit after count)) \<Longrightarrow>
   requests_get env (requests (public_loop env fuel sub tf limit after count) ! i) = Fails \<Longrightarrow>
   Suc i = length (requests (public_loop env fuel sub tf limit after count)) \<and>
   ending (public_loop env fuel sub tf limit after count) = Finished"
proof (induction fuel arbitrary: after count i)
  case 0
  then show ?case by simp
next
  case (Suc fuel)
  then show ?case
    by (cases i) (auto simp: Let_def split: if_splits response.splits sum.splits prod.splits option.splits)
qed

section \<open>Pagination of the public transport\<close>

lemma public_loop_pages:
  "paged pgs \<Longrightarrow> served env sub tf (if truthy after then Some after else None) pgs \<Longrightarrow>
   list_all (wf_page env) pgs \<Longrightarrow> below_limit limit count pgs \<Longrightarrow> length pgs \<le> fuel \<Longrightarrow>
   public_loop env fuel sub tf limit after count =
     \<lparr>yielded = concat (map (page_posts env sub) pgs),
      requests = page_requests sub tf limit (if truthy after then Some after else None) count pgs,
      ending = Finished\<rparr>"
proof (induction pgs arbitrary: fuel after count rule: paged.induct)
  case 1
  then show ?case by simp
next
  case (2 pg)
  then obtain f where fuel: "fuel = Suc f" by (cases fuel) auto
  from 2 have nm: "\<not> has_more pg" by (simp add: has_more_def)
  from 2 have "requests_get env (GetPosts sub tf (min (limit - count) 100)
      (if truthy after then Some after else None)) = Body pg" by simp
  with 2 nm show ?case
    unfolding fuel by (simp add: public_loop_step emit_def stop_def del: public_loop.simps)
next
  case (3 pg v va)
  then obtain f where fuel: "fuel = Suc f" by (cases fuel) auto
  from 3(2) have hm: "has_more pg" and tok: "truthy (page_token pg)" and pg': "paged (v # va)"
    by (simp_all add: has_more_def)
  from 3(3) have req: "requests_get env (GetPosts sub tf (min (limit - count) 100)
      (if truthy after then Some after else None)) = Body pg"
    and sv: "served env sub tf (if truthy (page_token pg) then Some (page_token pg) else None) (v # va)"
    using tok by simp_all
  from 3(4) have wf: "wf_page env pg" and wfs: "list_all (wf_page env) (v # va)" by simp_all
  from 3(5) have lt: "count < limit"
    and bl: "below_limit limit (count + int (length (filter accepted (page_items pg)))) (v # va)"
    by simp_all
  from 3(6) fuel have len: "length (v # va) \<le> f" by simp
  have IH: "public_loop env f sub tf limit (page_token pg)
      (count + int (length (filter accepted (page_items pg)))) =
     \<lparr>yielded = concat (map (page_posts env sub) (v # va)),
      requests = page_requests sub tf limit (if truthy (page_token pg) then Some (page_token pg) else None)
          (count + int (length (filter accepted (page_items pg)))) (v # va),
      ending = Finished\<rparr>"
    by (rule 3(1) [OF pg' sv wfs bl len])
  show ?case
    unfolding fuel public_loop_step [OF lt req wf] using hm tok
    by (simp add: IH emit_def del: public_loop.simps)
qed

lemma public_loop_run_then_fails:
  "list_all has_more pgs \<Longrightarrow> served env sub tf (if truthy after then Some after else None) pgs \<Longrightarrow>
   list_all (wf_page env) pgs \<Longrightarrow> below_limit limit count pgs \<Longrightarrow>
   count + int (length (concat (map (page_posts env sub) pgs))) < limit \<Longrightarrow>
   (\<forall>n. requests_get env (GetPosts sub tf n
       (next_cursor (if truthy after then Some after else None) pgs)) = Fails) \<Longrightarrow>
   length pgs < fuel \<Longrightarrow>
   public_loop env fuel sub tf limit after count =
     \<lparr>yielded = concat (map (page_posts env sub) pgs),
      requests = page_requests sub tf limit (if truthy after then Some after else None) count pgs @
        [GetPosts sub tf
           (min (limit - (count + int (length (concat (map (page_posts env sub) pgs))))) 100)
           (next_cursor (if truthy after then Some after else None) pgs)],
      ending = Finished\<rparr>"
proof (induction pgs arbitrary: fuel after count)
  case Nil
  then obtain f where fuel: "fuel = Suc f" by (cases fuel) auto
  from Nil show ?case unfolding fuel
    by (simp add: emit_def stop_def)
next
  case (Cons pg pgs)
  then obtain f where fuel: "fuel = Suc f" by (cases fuel) auto
  from Cons(2) have hm: "has_more pg" and hms: "list_all has_more pgs" by simp_all
  from hm have tok: "truthy (page_token pg)" by (simp add: has_more_def)
  from Cons(3) have req: "requests_get env (GetPosts sub tf (min (limit - count) 100)
      (if truthy after then Some after else None)) = Body pg"
    and sv: "served env sub tf (if truthy (page_token pg) then Some (page_token pg) else None) pgs"
    using tok by simp_all
  from Cons(4) have wf: "wf_page env pg" and wfs: "list_all (wf_page env) pgs" by simp_all
  from Cons(5) have lt: "count < limit"
    and bl: "below_limit limit (count + int (length (filter accepted (page_items pg)))) pgs"
    by simp_all
  have len_pp: "length (page_posts env sub pg) = length (filter accepted (page_items pg))"
    by (simp add: page_posts_def)
  from Cons(6) have tot: "(count + int (length (filter accepted (page_items pg)))) +
      int (length (concat (map (page_posts env sub) pgs))) < limit"
    by (simp add: len_pp)
  from Cons(7) have fl: "\<forall>n. requests_get env (GetPosts sub tf n
       (next_cursor (if truthy (page_token pg) then Some (page_token pg) else None) pgs)) = Fails"
    using tok by simp
  from Cons(8) fuel have len: "length pgs < f" by simp
  note IH = Cons(1) [OF hms sv wfs bl tot fl len]
  show ?case
    unfolding fuel public_loop_step [OF lt req wf] using hm tok
    by (simp add: IH emit_def len_pp add.assoc del: public_loop.simps)
qed

lemma example_env_simps [simp]:
  "requests_get (public_env get) = get"
  "utcfromtimestamp (public_env get) t = Some ''2023-11-14 22:13:20''"
  "py_str (public_env get) PyNone = ''None''"
  "REDDIT_API_ENABLED (public_env get) = False"
  by (simp_all add: public_env_def)

lemma example_page_simps [simp]:
  "page_items (example_page items tok) = items"
  "page_token (example_page items tok) = tok"
  by (simp_all add: page_items_def page_token_def example_page_def page_field_def bindE_def)

lemma wf_example_item [simp]: "wf_item (public_env get) (example_item pid sc)"
  by (simp add: wf_item_def wf_post_data_def example_item_def dict_get_def)

lemma wf_example_page [simp]:
  "wf_page (public_env get) (example_page items tok) = list_all (wf_item (public_env get)) items"
  by (simp add: wf_page_def example_page_def dict_get_def)

lemma accepted_example_item [simp]:
  "accepted (example_item pid sc) = (10 \<le> sc)"
  by (simp add: accepted_def item_score_def example_item_def dict_get_def MIN_SCORE_def)

lemma post_of_example_item [simp]:
  "10 \<le> sc \<Longrightarrow> post_of (public_env get) subreddit (example_item pid sc) = example_post subreddit pid sc"
  by (simp add: post_of_def public_item_def example_item_def example_post_def MIN_SCORE_def)




text \<open>
  C8. A page request that fails with a \<^verbatim>\<open>RequestException\<close> is the last request of
  the call, and the call ends normally, not with an exception. In particular, after
  any run of pages, when the next request fails the posts of those pages are the
  result.
\<close>

theorem network_failure_aborts_pagination:
  "(\<forall>i < length (requests (fetch_subreddit_posts_public env fuel subreddit t limit)).
      requests_get env (requests (fetch_subreddit_posts_public env fuel subreddit t limit) ! i) = Fails
      \<longrightarrow> Suc i = length (requests (fetch_subreddit_posts_public env fuel subreddit t limit)) \<and>
          ending (fetch_subreddit_posts_public env fuel subreddit t limit) = Finished) \<and>
   (list_all has_more pgs \<and> served env subreddit t None pgs \<and> list_all (wf_page env) pgs \<and>
    below_limit limit 0 pgs \<and>
    int (length (concat (map (page_posts env subreddit) pgs))) < limit \<and>
    (\<forall>n. requests_get env (GetPosts subreddit t n (next_cursor None pgs)) = Fails) \<and>
    length pgs < fuel
    \<longrightarrow> fetch_subreddit_posts_public env fuel subreddit t limit =
          \<lparr>yielded = concat (map (page_posts env subreddit) pgs),
           requests = page_requests subreddit t limit None 0 pgs @
             [GetPosts subreddit t
                (min (limit - int (length (concat (map (page_posts env subreddit) pgs)))) 100)
                (next_cursor None pgs)],
           ending = Finished\<rparr>)"
proof (intro conjI allI impI)
  fix i
  assume "i < length (requests (fetch_subreddit_posts_public env fuel subreddit t limit))"
    and "requests_get env (requests (fetch_subreddit_posts_public env fuel subreddit t limit) ! i) = Fails"
  then show "Suc i = length (requests (fetch_subreddit_posts_public env fuel subreddit t limit))"
    and "ending (fetch_subreddit_posts_public env fuel subreddit t limit) = Finished"
    unfolding fetch_subreddit_posts_public_def
    using public_loop_failing_request [of i env fuel subreddit t limit PyNone 0] by simp_all
next
  assume "list_all has_more pgs \<and> served env subreddit t None pgs \<and> list_all (wf_page env) pgs \<and>
    below_limit limit 0 pgs \<and>
    int (length (concat (map (page_posts env subreddit) pgs))) < limit \<and>
    (\<forall>n. requests_get env (GetPosts subreddit t n (next_cursor None pgs)) = Fails) \<and>
    length pgs < fuel"
  then show "fetch_subreddit_posts_public env fuel subreddit t limit =
          \<lparr>yielded = concat (map (page_posts env subreddit) pgs),
           requests = page_requests subreddit t limit None 0 pgs @
             [GetPosts subreddit t
                (min (limit - int (length (concat (map (page_posts env subreddit) pgs)))) 100)
                (next_cursor None pgs)],
           ending = Finished\<rparr>"
    unfolding fetch_subreddit_posts_public_def
    using public_loop_run_then_fails [of pgs env subreddit t PyNone limit 0 fuel] by simp
qed

text \<open>The first page of the specification's example, then a failure: the two posts
  of the first page are the result, the failed request is the last.\<close>

theorem network_failure_aborts_pagination_example:
  "requests_get failing_env (GetPosts ''vosfinances'' ''all'' 98 (Some (PyStr ''abc''))) = Fails \<and>
   fetch_subreddit_posts_public failing_env 2 ''vosfinances'' ''all'' 100 =
     \<lparr>yielded = [example_post ''vosfinances'' ''a'' 50, example_post ''vosfinances'' ''c'' 20],
      requests = [GetPosts ''vosfinances'' ''all'' 100 None,
                  GetPosts ''vosfinances'' ''all'' 98 (Some (PyStr ''abc''))],
      ending = Finished\<rparr> \<and>
   Suc 1 = length (requests (fetch_subreddit_posts_public failing_env 2 ''vosfinances'' ''all'' 100))"
proof -
  have h: "list_all has_more [spec_page1] \<and>
    served failing_env ''vosfinances'' ''all'' None [spec_page1] \<and>
    list_all (wf_page failing_env) [spec_page1] \<and>
    below_limit 100 0 [spec_page1] \<and>
    int (length (concat (map (page_posts failing_env ''vosfinances'') [spec_page1]))) < 100 \<and>
    (\<forall>n. requests_get failing_env
            (GetPosts ''vosfinances'' ''all'' n (next_cursor None [spec_page1])) = Fails) \<and>
    length [spec_page1] < 2"
    by (simp add: has_more_def spec_page1_def failing_env_def two_pages_def page_posts_def)
  have f: "requests_get failing_env (GetPosts ''vosfinances'' ''all'' 98 (Some (PyStr ''abc''))) = Fails"
    by (simp add: failing_env_def two_pages_def)
  from network_failure_aborts_pagination
         [of failing_env 2 "''vosfinances''" "''all''" 100 "[spec_page1]", THEN conjunct2, rule_format, OF h]
  have run: "fetch_subreddit_posts_public failing_env 2 ''vosfinances'' ''all'' 100 =
     \<lparr>yielded = [example_post ''vosfinances'' ''a'' 50, example_post ''vosfinances'' ''c'' 20],
      requests = [GetPosts ''vosfinances'' ''all'' 100 None,
                  GetPosts ''vosfinances'' ''all'' 98 (Some (PyStr ''abc''))],
      ending = Finished\<rparr>"
    by (simp add: page_posts_def spec_page1_def failing_env_def)
  from network_failure_aborts_pagination
         [of failing_env 2 "''vosfinances''" "''all''" 100 "[]", THEN conjunct1, rule_format, of 1]
    run f
  have "Suc 1 = length (requests (fetch_subreddit_posts_public failing_env 2 ''vosfinances'' ''all'' 100))"
    by simp
  with f run show ?thesis by simp
qed

section \<open>The posts and comments the transports build\<close>

lemma py_ge_TrueD:
  "py_ge v (of_int MIN_SCORE) = Inr True \<Longrightarrow> \<exists>n. v = PyNum n \<and> of_int MIN_SCORE \<le> n"
  by (cases v) (auto simp: MIN_SCORE_def split: if_splits)

lemma py_slice_len: "py_slice v n = Inr r \<Longrightarrow> len_at_most n r"
  by (cases v) (auto simp: len_at_most_def)

lemma public_item_Some:
  assumes "public_item env sub x = Inr (Some p)"
  shows "\<exists>pid title st n nc cu ca url ur.
           p = [(''id'', pid), (''subreddit'', PyStr sub), (''title'', title), (''selftext'', st),
                (''score'', PyNum n), (''num_comments'', nc), (''created_utc'', cu),
                (''created_at'', ca), (''url'', url), (''author'', item_field x ''author''),
                (''upvote_ratio'', ur)] \<and>
           of_int MIN_SCORE \<le> n \<and> len_at_most 2000 st"
proof (cases x)
  case (PyDict kvs)
  show ?thesis
  proof (cases "dict_get kvs ''data'' (PyDict [])")
    case d: (PyDict d)
    from assms have "\<exists>ca st.
        py_ge (dict_get d ''score'' (PyNum 0)) (of_int MIN_SCORE) = Inr True \<and>
        py_slice (dict_get d ''selftext'' (PyStr [])) 2000 = Inr st \<and>
        p = [(''id'', dict_get d ''id'' PyNone), (''subreddit'', PyStr sub),
             (''title'', dict_get d ''title'' PyNone), (''selftext'', st),
             (''score'', dict_get d ''score'' (PyNum 0)),
             (''num_comments'', dict_get d ''num_comments'' (PyNum 0)),
             (''created_utc'', dict_get d ''created_utc'' (PyNum 0)),
             (''created_at'', ca),
             (''url'', PyStr (''https://reddit.com'' @ py_str env (dict_get d ''permalink'' PyNone))),
             (''author'', dict_get d ''author'' PyNone),
             (''upvote_ratio'', dict_get d ''upvote_ratio'' (PyNum 0))]"
      unfolding public_item_def PyDict py_get_dict d bindE_def
      by (auto simp: dict_get_def split: sum.splits if_splits bool.splits)
    then obtain ca st where
      ge: "py_ge (dict_get d ''score'' (PyNum 0)) (of_int MIN_SCORE) = Inr True"
      and sl: "py_slice (dict_get d ''selftext'' (PyStr [])) 2000 = Inr st"
      and p: "p = [(''id'', dict_get d ''id'' PyNone), (''subreddit'', PyStr sub),
             (''title'', dict_get d ''title'' PyNone), (''selftext'', st),
             (''score'', dict_get d ''score'' (PyNum 0)),
             (''num_comments'', dict_get d ''num_comments'' (PyNum 0)),
             (''created_utc'', dict_get d ''created_utc'' (PyNum 0)),
             (''created_at'', ca),
             (''url'', PyStr (''https://reddit.com'' @ py_str env (dict_get d ''permalink'' PyNone))),
             (''author'', dict_get d ''author'' PyNone),
             (''upvote_ratio'', dict_get d ''upvote_ratio'' (PyNum 0))]"
      by blast
    from py_ge_TrueD [OF ge] obtain n where n: "dict_get d ''score'' (PyNum 0) = PyNum n"
      and le: "of_int MIN_SCORE \<le> n" by blast
    have au: "item_field x ''author'' = dict_get d ''author'' PyNone"
      by (simp add: item_field_def PyDict d)
    from p n le py_slice_len [OF sl] au show ?thesis by simp
  qed (use assms in \<open>simp_all add: public_item_def PyDict py_get_dict del: py_get.simps(1)\<close>)
qed (use assms in \<open>simp_all add: public_item_def\<close>)

lemma py_get_InrD: "py_get v k d = Inr r \<Longrightarrow> \<exists>kvs. v = PyDict kvs \<and> r = dict_get kvs k d"
  by (cases v) (simp_all add: dict_get_def)

lemma py_index_0_dict: "py_index v 0 = Inr (PyDict kvs) \<Longrightarrow> \<exists>rest. v = PyList (PyDict kvs # rest)"
proof (cases v)
  case (PyList xs)
  assume "py_index v 0 = Inr (PyDict kvs)"
  with PyList show ?thesis by (cases xs) (simp_all split: if_splits)
qed (simp_all split: if_splits)

lemma comment_of_body_Some:
  assumes "comment_of_body data = Inr (Some c)"
  shows "\<exists>cid body score.
           c = [(''comment_id'', cid), (''comment_body'', body), (''comment_score'', score),
                (''comment_author'', comment_field data ''author'')] \<and>
           len_at_most 1000 body"
proof -
  from assms have "\<exists>second comments first cd body0 body.
      py_index data 1 = Inr second \<and>
      page_field second ''children'' (PyList []) = Inr comments \<and>
      py_index comments 0 = Inr first \<and>
      py_get first ''data'' (PyDict []) = Inr cd \<and>
      py_get cd ''body'' (PyStr []) = Inr body0 \<and>
      py_slice body0 1000 = Inr body \<and>
      (\<exists>cid score author. py_get cd ''author'' PyNone = Inr author \<and>
      c = [(''comment_id'', cid), (''comment_body'', body), (''comment_score'', score),
           (''comment_author'', author)])"
    unfolding comment_of_body_def bindE_def
    by (auto split: sum.splits if_splits)
  then obtain second comments first cd body0 body cid score author where
    second: "py_index data 1 = Inr second"
    and comments: "page_field second ''children'' (PyList []) = Inr comments"
    and first: "py_index comments 0 = Inr first"
    and cd: "py_get first ''data'' (PyDict []) = Inr cd"
    and body: "py_slice body0 1000 = Inr body"
    and author: "py_get cd ''author'' PyNone = Inr author"
    and c: "c = [(''comment_id'', cid), (''comment_body'', body), (''comment_score'', score),
           (''comment_author'', author)]"
    by blast
  from py_get_InrD [OF cd] obtain kvs where kvs: "first = PyDict kvs"
    and cd': "cd = dict_get kvs ''data'' (PyDict [])" by blast
  from py_get_InrD [OF author] obtain d where d: "cd = PyDict d"
    and au: "author = dict_get d ''author'' PyNone" by blast
  from first kvs obtain rest where cs: "comments = PyList (PyDict kvs # rest)"
    using py_index_0_dict by blast
  from cd' d have dd: "dict_get kvs ''data'' (PyDict []) = PyDict d" by simp
  have "comment_field data ''author'' = author"
    using second comments cs au
    by (simp add: comment_field_def page_items_def item_field_def dd)
  with c py_slice_len [OF body] show ?thesis by simp
qed

lemma public_items_list_all:
  assumes "\<And>x p. public_item env sub x = Inr (Some p) \<Longrightarrow> P p"
  shows "list_all P (fst (public_items env sub xs))"
  by (induction xs) (auto split: sum.splits option.splits prod.splits dest: assms)

lemma public_loop_list_all:
  assumes "\<And>x p. public_item env sub x = Inr (Some p) \<Longrightarrow> P p"
  shows "list_all P (yielded (public_loop env fuel sub tf limit after count))"
proof (induction fuel arbitrary: after count)
  case 0
  show ?case by simp
next
  case (Suc fuel)
  have pi: "list_all P (fst (public_items env sub items))" for items
    by (rule public_items_list_all [of env sub P]) (rule assms)
  show ?case
    by (simp add: Let_def case_prod_beta Suc.IH pi
        split: response.splits sum.splits option.splits)
qed

lemma praw_items_list_all:
  assumes "\<And>s c. MIN_SCORE \<le> s_score s \<Longrightarrow> P (praw_post sub s c)"
  shows "list_all P (fst (praw_items env sub items))"
proof (induction items)
  case Nil
  show ?case by simp
next
  case (Cons a items)
  then show ?case
    by (cases a) (auto split: option.splits prod.splits intro: assms)
qed

lemma fetch_subreddit_posts_list_all:
  assumes "\<And>x p. public_item env sub x = Inr (Some p) \<Longrightarrow> P p"
    and "\<And>s c. MIN_SCORE \<le> s_score s \<Longrightarrow> P (praw_post sub s c)"
  shows "list_all P (yielded (fetch_subreddit_posts_public env fuel sub tf limit))"
    and "list_all P (yielded (fst (fetch_subreddit_posts_praw env fuel sub tf limit w)))"
    and "list_all P (yielded (fst (fetch_subreddit_posts env fuel sub tf limit w)))"
proof -
  show pub: "list_all P (yielded (fetch_subreddit_posts_public env fuel sub tf limit))"
    unfolding fetch_subreddit_posts_public_def
    by (rule public_loop_list_all [of env sub P]) (rule assms(1))
  have pi: "list_all P (fst (praw_items env sub items))" for items
    by (rule praw_items_list_all [of P sub]) (rule assms(2))
  show praw: "list_all P (yielded (fst (fetch_subreddit_posts_praw env fuel sub tf limit w)))"
    by (simp add: fetch_subreddit_posts_praw_def Let_def case_prod_beta pub pi
        split: option.splits bool.splits)
  show "list_all P (yielded (fst (fetch_subreddit_posts env fuel sub tf limit w)))"
    using pub praw by (simp add: fetch_subreddit_posts_def)
qed

lemma map_of_dict_set: "map_of (dict_set k v d) k' = (if k' = k then Some v else map_of d k')"
  by (induction d) auto

lemma map_of_dict_update:
  "map_of (dict_update p c) k = (case map_of (rev c) k of Some v \<Rightarrow> Some v | None \<Rightarrow> map_of p k)"
  unfolding dict_update_def
  by (induction c arbitrary: p) (auto simp: map_of_dict_set map_add_def split: option.splits)

lemma map_of_comment_update:
  assumes "is_comment c"
  shows "map_of (dict_update p c) k = (if k \<in> set comment_keys then map_of c k else map_of p k)"
proof -
  from assms have keys: "map fst c = comment_keys" by (simp add: is_comment_def)
  then have "distinct (map fst (rev c))" by (simp add: comment_keys_def rev_map [symmetric] del: rev_map)
  then have rev: "map_of (rev c) = map_of c"
    by (intro ext map_of_inject_set [THEN iffD2] ) (simp_all add: keys comment_keys_def)
  have "map_of c k = None \<longleftrightarrow> k \<notin> set comment_keys"
    using keys by (metis map_of_eq_None_iff set_map)
  then show ?thesis
    by (auto simp: map_of_dict_update rev split: option.splits)
qed

lemma is_comment_public: "comment_of_body data = Inr (Some c) \<Longrightarrow> is_comment c"
  using comment_of_body_Some [of data c]
  by (auto simp: is_comment_def comment_keys_def comment_body_ok_def)

lemma is_comment_praw: "is_comment (praw_top_comment tc)"
  by (simp add: is_comment_def comment_keys_def comment_body_ok_def praw_top_comment_def
      len_at_most_def)

lemma fetch_top_comment_public_Some:
  "fetch_top_comment_public env pid sub = Inr (Some c) \<Longrightarrow> is_comment c"
  by (auto simp: fetch_top_comment_public_def split: response.splits dest: is_comment_public)

lemma fetch_top_comment_praw_Some:
  "fetch_top_comment_praw env pid sub w = (Inr (Some c), w') \<Longrightarrow> is_comment c"
  by (auto simp: fetch_top_comment_praw_def Let_def is_comment_praw
      split: prod.splits option.splits list.splits dest: fetch_top_comment_public_Some)

lemma fetch_top_comment_Some:
  "fetch_top_comment env pid sub w = (Inr (Some c), w') \<Longrightarrow> is_comment c"
  by (auto simp: fetch_top_comment_def split: if_splits
      dest: fetch_top_comment_public_Some fetch_top_comment_praw_Some)

lemma add_comment_cases:
  assumes "add_comment env sub post w = (Inr post1, w1)"
  shows "post1 = post \<or> (\<exists>c. is_comment c \<and> post1 = dict_update post c)"
proof (cases "dict_item post ''id''")
  case (Inl e)
  with assms show ?thesis by (simp add: add_comment_def)
next
  case (Inr pid)
  obtain r w' where f: "fetch_top_comment env pid sub w = (r, w')" by (cases "fetch_top_comment env pid sub w")
  show ?thesis
  proof (cases r)
    case (Inl e)
    with assms Inr f show ?thesis by (simp add: add_comment_def)
  next
    case r: (Inr oc)
    show ?thesis
    proof (cases oc)
      case None
      with assms Inr f r show ?thesis by (simp add: add_comment_def)
    next
      case (Some c)
      with f r have "is_comment c" by (auto dest: fetch_top_comment_Some)
      with assms Inr f r Some show ?thesis
        by (auto simp: add_comment_def split: if_splits)
    qed
  qed
qed

section \<open>What the two entry points keep\<close>

lemma all_posts_inner_inv:
  assumes PQ: "\<And>p. P p \<Longrightarrow> Q p"
    and PC: "\<And>p c. P p \<Longrightarrow> is_comment c \<Longrightarrow> Q (dict_update p c)"
  shows "list_all P posts \<Longrightarrow> list_all Q acc \<Longrightarrow>
         all_posts_inner env wc sub posts acc w = Returns res w' \<Longrightarrow> list_all Q res"
proof (induction posts arbitrary: acc w)
  case Nil
  then show ?case by simp
next
  case (Cons post rest)
  from Cons.prems(1) have Pp: "P post" and Pr: "list_all P rest" by simp_all
  show ?case
  proof (cases wc)
    case False
    with Cons.prems(3) have "all_posts_inner env wc sub rest (acc @ [post]) w = Returns res w'"
      by simp
    moreover have "list_all Q (acc @ [post])" using Cons.prems(2) PQ [OF Pp] by simp
    ultimately show ?thesis using Cons.IH [OF Pr] by blast
  next
    case True
    obtain r w1 where ac: "add_comment env sub post w = (r, w1)"
      by (cases "add_comment env sub post w")
    show ?thesis
    proof (cases r)
      case (Inl e)
      with True ac Cons.prems(3) show ?thesis by simp
    next
      case (Inr post1)
      with True ac Cons.prems(3)
      have run: "all_posts_inner env wc sub rest (acc @ [post1]) w1 = Returns res w'" by simp
      from add_comment_cases [of env sub post w post1 w1] ac Inr
      have "Q post1" using PQ [OF Pp] PC [OF Pp] by auto
      then have "list_all Q (acc @ [post1])" using Cons.prems(2) by simp
      with run show ?thesis using Cons.IH [OF Pr] by blast
    qed
  qed
qed

lemma new_posts_inner_inv:
  assumes PQ: "\<And>p. P p \<Longrightarrow> Q p"
    and PC: "\<And>p c. P p \<Longrightarrow> is_comment c \<Longrightarrow> Q (dict_update p c)"
  shows "list_all P posts \<Longrightarrow> list_all Q acc \<Longrightarrow>
         new_posts_inner env cutoff wc sub posts acc w = Returns res w' \<Longrightarrow> list_all Q res"
proof (induction posts arbitrary: acc w)
  case Nil
  then show ?case by simp
next
  case (Cons post rest)
  from Cons.prems(1) have Pp: "P post" and Pr: "list_all P rest" by simp_all
  show ?case
  proof (cases "py_ge (dict_get post ''created_utc'' (PyNum 0)) cutoff")
    case (Inl e)
    with Cons.prems(3) show ?thesis by simp
  next
    case (Inr recent)
    show ?thesis
    proof (cases recent)
      case False
      with Inr Cons.prems(3) have "new_posts_inner env cutoff wc sub rest acc w = Returns res w'"
        by simp
      then show ?thesis using Cons.IH [OF Pr Cons.prems(2)] by blast
    next
      case recent: True
      show ?thesis
      proof (cases wc)
        case False
        with Inr recent Cons.prems(3)
        have "new_posts_inner env cutoff wc sub rest (acc @ [post]) w = Returns res w'"
          by simp
        moreover have "list_all Q (acc @ [post])" using Cons.prems(2) PQ [OF Pp] by simp
        ultimately show ?thesis using Cons.IH [OF Pr] by blast
      next
        case True
        obtain r w1 where ac: "add_comment env sub post w = (r, w1)"
          by (cases "add_comment env sub post w")
        show ?thesis
        proof (cases r)
          case (Inl e)
          with True Inr recent ac Cons.prems(3) show ?thesis by simp
        next
          case post1: (Inr post1)
          with True Inr recent ac Cons.prems(3)
          have run: "new_posts_inner env cutoff wc sub rest (acc @ [post1]) w1 = Returns res w'"
            by simp
          from add_comment_cases [of env sub post w post1 w1] ac post1
          have "Q post1" using PQ [OF Pp] PC [OF Pp] by auto
          then have "list_all Q (acc @ [post1])" using Cons.prems(2) by simp
          with run show ?thesis using Cons.IH [OF Pr] by blast
        qed
      qed
    qed
  qed
qed

lemma all_posts_outer_inv:
  assumes gen: "\<And>sub w. list_all P (yielded (fst (fetch_subreddit_posts env fuel sub TIME_FILTER limit w)))"
    and PQ: "\<And>p. P p \<Longrightarrow> Q p"
    and PC: "\<And>p c. P p \<Longrightarrow> is_comment c \<Longrightarrow> Q (dict_update p c)"
  shows "list_all Q acc \<Longrightarrow>
         all_posts_outer env fuel wc limit subs acc w = Returns res w' \<Longrightarrow> list_all Q res"
proof (induction subs arbitrary: acc w)
  case Nil
  then show ?case by simp
next
  case (Cons sub subs)
  obtain g w1 where f: "fetch_subreddit_posts env fuel sub TIME_FILTER limit w = (g, w1)"
    by (cases "fetch_subreddit_posts env fuel sub TIME_FILTER limit w")
  from gen [of sub w] f have Pg: "list_all P (yielded g)" by simp
  from Cons.prems(2) f obtain acc1 w2 where
    inner: "all_posts_inner env wc sub (yielded g) acc w1 = Returns acc1 w2"
    and rest: "all_posts_outer env fuel wc limit subs acc1 w2 = Returns res w'"
    by (auto split: result.splits ending.splits)
  from all_posts_inner_inv [of P Q, OF PQ PC Pg Cons.prems(1) inner]
  have "list_all Q acc1" .
  then show ?case using Cons.IH rest by blast
qed

lemma new_posts_outer_inv:
  assumes gen: "\<And>sub w. list_all P (yielded (fst (fetch_subreddit_posts env fuel sub ''day'' 100 w)))"
    and PQ: "\<And>p. P p \<Longrightarrow> Q p"
    and PC: "\<And>p c. P p \<Longrightarrow> is_comment c \<Longrightarrow> Q (dict_update p c)"
  shows "list_all Q acc \<Longrightarrow>
         new_posts_outer env fuel cutoff wc subs acc w = Returns res w' \<Longrightarrow> list_all Q res"
proof (induction subs arbitrary: acc w)
  case Nil
  then show ?case by simp
next
  case (Cons sub subs)
  obtain g w1 where f: "fetch_subreddit_posts env fuel sub ''day'' 100 w = (g, w1)"
    by (cases "fetch_subreddit_posts env fuel sub ''day'' 100 w")
  from gen [of sub w] f have Pg: "list_all P (yielded g)" by simp
  from Cons.prems(2) f obtain acc1 w2 where
    inner: "new_posts_inner env cutoff wc sub (yielded g) acc w1 = Returns acc1 w2"
    and rest: "new_posts_outer env fuel cutoff wc subs acc1 w2 = Returns res w'"
    by (auto split: result.splits ending.splits)
  from new_posts_inner_inv [of P Q, OF PQ PC Pg Cons.prems(1) inner]
  have "list_all Q acc1" .
  then show ?case using Cons.IH rest by blast
qed

lemma score_ok_public: "public_item env sub x = Inr (Some p) \<Longrightarrow> score_ok p"
  using public_item_Some [of env sub x p] by (auto simp: score_ok_def)

lemma score_ok_praw: "MIN_SCORE \<le> s_score s \<Longrightarrow> score_ok (praw_post sub s c)"
  by (simp add: score_ok_def praw_post_def)

lemma score_ok_update: "is_comment c \<Longrightarrow> score_ok p \<Longrightarrow> score_ok (dict_update p c)"
  by (simp add: score_ok_def map_of_comment_update comment_keys_def)

lemma selftext_ok_public: "public_item env sub x = Inr (Some p) \<Longrightarrow> fresh_ok p"
  using public_item_Some [of env sub x p] by (auto simp: selftext_ok_def fresh_ok_def)

lemma selftext_ok_praw: "fresh_ok (praw_post sub s c)"
  by (simp add: selftext_ok_def praw_post_def len_at_most_def fresh_ok_def)

lemma bodies_ok_fresh: "fresh_ok p \<Longrightarrow> bodies_ok p"
  by (simp add: bodies_ok_def fresh_ok_def)

lemma bodies_ok_update: "fresh_ok p \<Longrightarrow> is_comment c \<Longrightarrow> bodies_ok (dict_update p c)"
  by (auto simp: bodies_ok_def fresh_ok_def selftext_ok_def map_of_comment_update comment_keys_def
      is_comment_def comment_body_ok_def split: option.splits)

section \<open>The examples, evaluated\<close>

lemma SUBREDDITS_eq:
  "SUBREDDITS = [''vosfinances'', ''vossous'', ''Bogleheads'', ''eupersonalfinance'', ''ETFs_Europe'']"
  by (simp add: SUBREDDITS_def raw_subreddits_def validate_subreddit_name_def name_core_def
      name_char_def)

lemma public_env_dispatch [simp]:
  "fetch_subreddit_posts (public_env get) fuel sub tf limit w =
     (fetch_subreddit_posts_public (public_env get) fuel sub tf limit, w)"
  "fetch_top_comment (public_env get) pid sub w =
     (fetch_top_comment_public (public_env get) pid sub, w)"
  by (simp_all add: fetch_subreddit_posts_def fetch_top_comment_def)

lemma public_fetch_fails:
  assumes "get (GetPosts sub tf (min limit 100) None) = Fails" and "0 < limit"
  shows "fetch_subreddit_posts_public (public_env get) (Suc fuel) sub tf limit =
           \<lparr>yielded = [], requests = [GetPosts sub tf (min limit 100) None], ending = Finished\<rparr>"
  using assms by (simp add: fetch_subreddit_posts_public_def emit_def stop_def)

lemma spec_example_fetch:
  "fetch_subreddit_posts_public spec_example_env 2 ''vosfinances'' tf 100 =
     \<lparr>yielded = [example_post ''vosfinances'' ''a'' 50, example_post ''vosfinances'' ''c'' 20],
      requests = [GetPosts ''vosfinances'' tf 100 None,
                  GetPosts ''vosfinances'' tf 98 (Some (PyStr ''abc''))],
      ending = Finished\<rparr>"
proof -
  have p: "paged [spec_page1, spec_page2]"
    by (simp add: spec_page1_def spec_page2_def)
  have s: "served spec_example_env ''vosfinances'' tf (if truthy PyNone then Some PyNone else None)
             [spec_page1, spec_page2]"
    by (simp add: spec_example_env_def two_pages_def spec_page1_def)
  have w: "list_all (wf_page spec_example_env) [spec_page1, spec_page2]"
    by (simp add: spec_example_env_def spec_page1_def spec_page2_def)
  have b: "below_limit 100 0 [spec_page1, spec_page2]"
    by (simp add: spec_page1_def spec_page2_def)
  show ?thesis
    unfolding fetch_subreddit_posts_public_def
    using public_loop_pages [OF p s w b, of 2]
    by (simp add: page_posts_def spec_page1_def spec_page2_def spec_example_env_def)
qed

lemma spec_example_harvest:
  "fetch_all_posts spec_example_env 2 False 100 w0 =
     Returns [example_post ''vosfinances'' ''a'' 50, example_post ''vosfinances'' ''c'' 20] w0"
proof -
  have other: "fetch_subreddit_posts_public (public_env (two_pages spec_page1 (Body spec_page2)))
                 2 sub tf 100 =
           \<lparr>yielded = [], requests = [GetPosts sub tf (min 100 100) None], ending = Finished\<rparr>"
    if "sub \<noteq> ''vosfinances''" for sub tf
    unfolding numeral_2_eq_2
    by (rule public_fetch_fails) (use that in \<open>simp_all add: two_pages_def\<close>)
  show ?thesis
    unfolding spec_example_env_def
    by (simp add: fetch_all_posts_def SUBREDDITS_eq other
        spec_example_fetch [unfolded spec_example_env_def])
qed

lemma commented_fetch:
  "fetch_subreddit_posts_public commented_env (Suc 0) ''vosfinances'' tf 100 =
     \<lparr>yielded = [example_post ''vosfinances'' ''a'' 50],
      requests = [GetPosts ''vosfinances'' tf 100 None],
      ending = Finished\<rparr>"
proof -
  have p: "paged [one_page]" by (simp add: one_page_def)
  have s: "served commented_env ''vosfinances'' tf (if truthy PyNone then Some PyNone else None)
             [one_page]"
    by (simp add: commented_env_def commented_get_def)
  have w: "list_all (wf_page commented_env) [one_page]"
    by (simp add: commented_env_def one_page_def)
  have b: "below_limit 100 0 [one_page]" by simp
  show ?thesis
    unfolding fetch_subreddit_posts_public_def
    using public_loop_pages [OF p s w b, of "Suc 0"]
    by (simp add: page_posts_def one_page_def commented_env_def)
qed

lemma comment_of_comments_body: "comment_of_body comments_body = Inr (Some example_comment)"
  by (simp add: comment_of_body_def comments_body_def example_comment_def page_field_def)

lemma commented_top_comment:
  "fetch_top_comment_public commented_env (PyStr ''a'') ''vosfinances'' = Inr (Some example_comment)"
  by (simp add: fetch_top_comment_public_def commented_env_def commented_get_def
      comment_of_comments_body)

lemma example_post_update:
  "dict_update (example_post sub pid sc) example_comment = example_post sub pid sc @ example_comment"
  by (simp add: dict_update_def example_post_def example_comment_def)

lemma commented_harvest:
  "fetch_all_posts commented_env (Suc 0) True 100 w0 =
     Returns [example_post ''vosfinances'' ''a'' 50 @ example_comment] w0"
proof -
  have other: "fetch_subreddit_posts_public (public_env commented_get) (Suc 0) sub tf 100 =
           \<lparr>yielded = [], requests = [GetPosts sub tf (min 100 100) None], ending = Finished\<rparr>"
    if "sub \<noteq> ''vosfinances''" for sub tf
    by (rule public_fetch_fails) (use that in \<open>simp_all add: commented_get_def\<close>)
  have id: "dict_item (example_post ''vosfinances'' ''a'' 50) ''id'' = Inr (PyStr ''a'')"
    by (simp add: dict_item_def example_post_def)
  have ne: "example_comment \<noteq> []" by (simp add: example_comment_def)
  show ?thesis
    unfolding commented_env_def
    by (simp add: fetch_all_posts_def SUBREDDITS_eq other add_comment_def id ne example_post_update
        commented_fetch [unfolded commented_env_def]
        commented_top_comment [unfolded commented_env_def])
qed

lemma spec_example_recent:
  "fetch_new_posts spec_example_env 2 500000 False w0 =
     Returns [example_post ''vosfinances'' ''a'' 50, example_post ''vosfinances'' ''c'' 20] w0"
proof -
  have other: "fetch_subreddit_posts_public (public_env (two_pages spec_page1 (Body spec_page2)))
                 2 sub tf 100 =
           \<lparr>yielded = [], requests = [GetPosts sub tf (min 100 100) None], ending = Finished\<rparr>"
    if "sub \<noteq> ''vosfinances''" for sub tf
    unfolding numeral_2_eq_2
    by (rule public_fetch_fails) (use that in \<open>simp_all add: two_pages_def\<close>)
  have ge: "py_ge (dict_get (example_post sub pid sc) ''created_utc'' (PyNum 0))
              (- 100000000) = Inr True" for sub pid sc
    by (simp add: dict_get_def example_post_def)
  have t: "time_time (public_env (two_pages spec_page1 (Body spec_page2))) = 1700000000"
    by (simp add: public_env_def)
  show ?thesis
    unfolding spec_example_env_def
    by (simp add: fetch_new_posts_def SUBREDDITS_eq other ge t
        spec_example_fetch [unfolded spec_example_env_def])
qed

text \<open>
  C1. Every post a fetch operation yields or returns has a score of at least
  \<open>MIN_SCORE\<close>: the posts the public and the authenticated generator yield (the
  filter sits before the \<^verbatim>\<open>yield\<close>, so what the consumer receives is already
  filtered), and the lists \<^verbatim>\<open>fetch_all_posts\<close> and \<^verbatim>\<open>fetch_new_posts\<close> return.
\<close>

theorem posts_meet_min_score:
  "list_all score_ok (yielded (fetch_subreddit_posts_public env fuel subreddit t limit)) \<and>
   list_all score_ok (yielded (fst (fetch_subreddit_posts_praw env fuel subreddit t limit w))) \<and>
   list_all score_ok (yielded (fst (fetch_subreddit_posts env fuel subreddit t limit w))) \<and>
   (fetch_all_posts env fuel with_comments limit w = Returns res w1 \<longrightarrow> list_all score_ok res) \<and>
   (fetch_new_posts env fuel since_hours with_comments w = Returns res w1
      \<longrightarrow> list_all score_ok res)"
proof -
  have gen: "list_all score_ok (yielded (fetch_subreddit_posts_public env fuel sub tf lim))"
    "list_all score_ok (yielded (fst (fetch_subreddit_posts_praw env fuel sub tf lim w)))"
    "list_all score_ok (yielded (fst (fetch_subreddit_posts env fuel sub tf lim w)))"
    for sub tf lim w
    by (rule fetch_subreddit_posts_list_all [of env sub score_ok];
        (erule score_ok_public | erule score_ok_praw))+
  have all: "list_all score_ok res"
    if "fetch_all_posts env fuel with_comments limit w = Returns res w1"
    using that unfolding fetch_all_posts_def
    by (rule all_posts_outer_inv [of score_ok env fuel limit score_ok, rotated -1])
       (simp_all add: gen score_ok_update)
  have new: "list_all score_ok res"
    if "fetch_new_posts env fuel since_hours with_comments w = Returns res w1"
    using that unfolding fetch_new_posts_def
    by (rule new_posts_outer_inv [of score_ok env fuel score_ok, rotated -1])
       (simp_all add: gen score_ok_update)
  from gen all new show ?thesis by blast
qed

text \<open>The example of the specification, harvested: the posts of scores 50 and 20
  are returned, the items of scores 5 and 8 are not.\<close>

theorem posts_meet_min_score_example:
  "fetch_all_posts spec_example_env 2 False 100 w0 =
     Returns [example_post ''vosfinances'' ''a'' 50, example_post ''vosfinances'' ''c'' 20] w0 \<and>
   fetch_new_posts spec_example_env 2 500000 False w0 =
     Returns [example_post ''vosfinances'' ''a'' 50, example_post ''vosfinances'' ''c'' 20] w0 \<and>
   score_ok (example_post ''vosfinances'' ''a'' 50) \<and>
   score_ok (example_post ''vosfinances'' ''c'' 20)"
  using posts_meet_min_score [of spec_example_env 2 "''vosfinances''" "''all''" 100 w0 False
      "[example_post ''vosfinances'' ''a'' 50, example_post ''vosfinances'' ''c'' 20]" w0 500000]
    spec_example_harvest spec_example_recent
  by simp

lemma commented_recent:
  "fetch_new_posts commented_env (Suc 0) 500000 True w0 =
     Returns [example_post ''vosfinances'' ''a'' 50 @ example_comment] w0"
proof -
  have other: "fetch_subreddit_posts_public (public_env commented_get) (Suc 0) sub tf 100 =
           \<lparr>yielded = [], requests = [GetPosts sub tf (min 100 100) None], ending = Finished\<rparr>"
    if "sub \<noteq> ''vosfinances''" for sub tf
    by (rule public_fetch_fails) (use that in \<open>simp_all add: commented_get_def\<close>)
  have id: "dict_item (example_post ''vosfinances'' ''a'' 50) ''id'' = Inr (PyStr ''a'')"
    by (simp add: dict_item_def example_post_def)
  have ne: "example_comment \<noteq> []" by (simp add: example_comment_def)
  have ge: "py_ge (dict_get (example_post sub pid sc) ''created_utc'' (PyNum 0))
              (- 100000000) = Inr True" for sub pid sc
    by (simp add: dict_get_def example_post_def)
  have t: "time_time (public_env commented_get) = 1700000000"
    by (simp add: public_env_def)
  show ?thesis
    unfolding commented_env_def
    by (simp add: fetch_new_posts_def SUBREDDITS_eq other add_comment_def id ne ge t
        example_post_update
        commented_fetch [unfolded commented_env_def]
        commented_top_comment [unfolded commented_env_def])
qed

text \<open>
  C9. The body of every post either transport produces has at most 2000 characters,
  and the body of every comment either transport produces has at most 1000; the
  posts the two entry points return keep both bounds.
\<close>

theorem bodies_within_caps:
  "list_all selftext_ok (yielded (fetch_subreddit_posts_public env fuel subreddit t limit)) \<and>
   list_all selftext_ok (yielded (fst (fetch_subreddit_posts_praw env fuel subreddit t limit w))) \<and>
   list_all selftext_ok (yielded (fst (fetch_subreddit_posts env fuel subreddit t limit w))) \<and>
   (fetch_top_comment_public env post_id subreddit = Inr (Some c) \<longrightarrow> comment_body_ok c) \<and>
   (fetch_top_comment_praw env post_id subreddit w = (Inr (Some c), w1) \<longrightarrow> comment_body_ok c) \<and>
   (fetch_top_comment env post_id subreddit w = (Inr (Some c), w1) \<longrightarrow> comment_body_ok c) \<and>
   (fetch_all_posts env fuel with_comments limit w = Returns res w1 \<longrightarrow> list_all bodies_ok res) \<and>
   (fetch_new_posts env fuel since_hours with_comments w = Returns res w1
      \<longrightarrow> list_all bodies_ok res)"
proof -
  have gen: "list_all fresh_ok (yielded (fetch_subreddit_posts_public env fuel sub tf lim))"
    "list_all fresh_ok (yielded (fst (fetch_subreddit_posts_praw env fuel sub tf lim w)))"
    "list_all fresh_ok (yielded (fst (fetch_subreddit_posts env fuel sub tf lim w)))"
    for sub tf lim w
    by (rule fetch_subreddit_posts_list_all [of env sub fresh_ok];
        (erule selftext_ok_public | rule selftext_ok_praw))+
  have weaken: "list_all selftext_ok ps" if "list_all fresh_ok ps" for ps
    using that by (induction ps) (simp_all add: fresh_ok_def)
  have all: "list_all bodies_ok res"
    if "fetch_all_posts env fuel with_comments limit w = Returns res w1"
    using that unfolding fetch_all_posts_def
    by (rule all_posts_outer_inv [of fresh_ok env fuel limit bodies_ok, rotated -1])
       (simp_all add: gen bodies_ok_fresh bodies_ok_update)
  have new: "list_all bodies_ok res"
    if "fetch_new_posts env fuel since_hours with_comments w = Returns res w1"
    using that unfolding fetch_new_posts_def
    by (rule new_posts_outer_inv [of fresh_ok env fuel bodies_ok, rotated -1])
       (simp_all add: gen bodies_ok_fresh bodies_ok_update)
  have c1: "comment_body_ok c" if "fetch_top_comment_public env post_id subreddit = Inr (Some c)"
    using fetch_top_comment_public_Some [OF that] by (simp add: is_comment_def)
  have c2: "comment_body_ok c" if "fetch_top_comment_praw env post_id subreddit w = (Inr (Some c), w1)"
    using fetch_top_comment_praw_Some [OF that] by (simp add: is_comment_def)
  have c3: "comment_body_ok c" if "fetch_top_comment env post_id subreddit w = (Inr (Some c), w1)"
    using fetch_top_comment_Some [OF that] by (simp add: is_comment_def)
  from gen [THEN weaken] all new c1 c2 c3 show ?thesis by blast
qed

text \<open>A post with its top comment, harvested through the public transport.\<close>

theorem bodies_within_caps_example:
  "fetch_all_posts commented_env (Suc 0) True 100 w0 =
     Returns [example_post ''vosfinances'' ''a'' 50 @ example_comment] w0 \<and>
   fetch_new_posts commented_env (Suc 0) 500000 True w0 =
     Returns [example_post ''vosfinances'' ''a'' 50 @ example_comment] w0 \<and>
   bodies_ok (example_post ''vosfinances'' ''a'' 50 @ example_comment) \<and>
   fetch_top_comment_public commented_env (PyStr ''a'') ''vosfinances'' = Inr (Some example_comment) \<and>
   fetch_top_comment_praw commented_env (PyStr ''a'') ''vosfinances'' w0 =
     (Inr (Some example_comment), w0) \<and>
   fetch_top_comment commented_env (PyStr ''a'') ''vosfinances'' w0 =
     (Inr (Some example_comment), w0) \<and>
   comment_body_ok example_comment"
proof -
  have p: "fetch_top_comment_praw commented_env (PyStr ''a'') ''vosfinances'' w0 =
     (Inr (Some example_comment), w0)"
    by (simp add: fetch_top_comment_praw_def get_reddit_client_def commented_top_comment
        commented_env_def [THEN arg_cong [of _ _ REDDIT_API_ENABLED]])
  have f: "fetch_top_comment commented_env (PyStr ''a'') ''vosfinances'' w0 =
     (Inr (Some example_comment), w0)"
    by (simp add: fetch_top_comment_def commented_top_comment
        commented_env_def [THEN arg_cong [of _ _ REDDIT_API_ENABLED]])
  from bodies_within_caps [of commented_env "Suc 0" "''vosfinances''" "''all''" 100 w0
      "PyStr ''a''" example_comment w0 True
      "[example_post ''vosfinances'' ''a'' 50 @ example_comment]" 500000]
    commented_harvest commented_recent commented_top_comment p f
  show ?thesis by simp
qed

section \<open>The authenticated transport and its fallback\<close>

lemma praw_env_simps [simp]:
  "REDDIT_API_ENABLED (praw_env me listing) = True"
  "PRAW_AVAILABLE (praw_env me listing) = True"
  "praw_Reddit (praw_env me listing) hist = Some (Client 0)"
  "user_me (praw_env me listing) hist c = me"
  "sub_top (praw_env me listing) hist c sub tf n = listing"
  "submission_comments (praw_env me listing) hist c pid = None"
  "requests_get (praw_env me listing) = commented_get"
  "utcfromtimestamp (praw_env me listing) ts = Some ''2023-11-14 22:13:20''"
  by (simp_all add: praw_env_def commented_env_def public_env_def)

text \<open>
  C6 (the code departs from it). The constructor returns a client and the connection
  test raises: the call returns no client, but the global already holds the untested
  one, and the next call returns it without calling the constructor or the test
  again.
\<close>

theorem failed_connection_test_is_cached:
  assumes "REDDIT_API_ENABLED env" and "PRAW_AVAILABLE env"
    and "reddit_instance w = None"
    and "praw_Reddit env (praw_log w) = Some c"
    and "\<not> user_me env (praw_log w @ [NewReddit]) c"
  shows "get_reddit_client env w =
           (None, w\<lparr>reddit_instance := Some c, praw_log := praw_log w @ [NewReddit, UserMe c]\<rparr>) \<and>
         get_reddit_client env
             (w\<lparr>reddit_instance := Some c, praw_log := praw_log w @ [NewReddit, UserMe c]\<rparr>) =
           (Some c, w\<lparr>reddit_instance := Some c, praw_log := praw_log w @ [NewReddit, UserMe c]\<rparr>)"
  using assms by (simp add: get_reddit_client_def)

text \<open>From the initial state: the first call returns no client and records the two
  calls to the library; the second returns the cached client and records none.\<close>

theorem failed_connection_test_is_cached_example:
  "get_reddit_client (praw_env False []) w0 = (None, w_cached) \<and>
   get_reddit_client (praw_env False []) w_cached = (Some (Client 0), w_cached) \<and>
   praw_log w_cached = [NewReddit, UserMe (Client 0)]"
  using failed_connection_test_is_cached [of "praw_env False []" w0 "Client 0"]
  by (simp add: w0_def w_cached_def)

lemma praw_items_listing:
  "list_all (\<lambda>p. utcfromtimestamp env (s_created_utc p) \<noteq> None) posts \<Longrightarrow>
   praw_items env sub (map Item posts @ TopRaises # rest) =
     (map (\<lambda>p. praw_post sub p (the (utcfromtimestamp env (s_created_utc p))))
        (filter (\<lambda>p. MIN_SCORE \<le> s_score p) posts), True)"
  by (induction posts) auto

lemma praw_fallback:
  assumes "get_reddit_client env w = (Some reddit, w1)"
    and "praw_items env sub (sub_top env (praw_log w1) reddit sub tf limit) = (ps, True)"
  shows "fst (fetch_subreddit_posts_praw env fuel sub tf limit w) =
           emit ps [] (fetch_subreddit_posts_public env fuel sub tf limit)"
  using assms by (simp add: fetch_subreddit_posts_praw_def Let_def)

text \<open>
  C7 (amended). When the authenticated listing raises after \<open>k\<close> posts were yielded,
  the caller receives those \<open>k\<close> posts followed by the whole sequence of the public
  fetch for the same community, time filter and limit, which starts at its first
  page; the sequence ends as the public fetch ends.
\<close>

theorem praw_failure_then_whole_public_fetch:
  assumes "get_reddit_client env w = (Some reddit, w1)"
    and "sub_top env (praw_log w1) reddit subreddit t limit = map Item posts @ TopRaises # rest"
    and "list_all (\<lambda>p. utcfromtimestamp env (s_created_utc p) \<noteq> None) posts"
  shows "yielded (fst (fetch_subreddit_posts_praw env fuel subreddit t limit w)) =
           map (\<lambda>p. praw_post subreddit p (the (utcfromtimestamp env (s_created_utc p))))
             (filter (\<lambda>p. MIN_SCORE \<le> s_score p) posts) @
           yielded (fetch_subreddit_posts_public env fuel subreddit t limit) \<and>
         requests (fst (fetch_subreddit_posts_praw env fuel subreddit t limit w)) =
           requests (fetch_subreddit_posts_public env fuel subreddit t limit) \<and>
         ending (fst (fetch_subreddit_posts_praw env fuel subreddit t limit w)) =
           ending (fetch_subreddit_posts_public env fuel subreddit t limit)"
  using praw_fallback [OF assms(1), of subreddit t limit _ fuel]
    praw_items_listing [OF assms(3), of subreddit rest] assms(2)
  by simp

lemma resume_client:
  "get_reddit_client (praw_env True listing) w0 =
     (Some (Client 0), \<lparr>reddit_instance = Some (Client 0), praw_log = [NewReddit, UserMe (Client 0)]\<rparr>)"
  by (simp add: get_reddit_client_def w0_def)

lemma praw_env_public_fetch:
  "fetch_subreddit_posts_public (praw_env me listing) (Suc 0) ''vosfinances'' tf 100 =
     \<lparr>yielded = [example_post ''vosfinances'' ''a'' 50],
      requests = [GetPosts ''vosfinances'' tf 100 None],
      ending = Finished\<rparr>"
proof -
  have p: "paged [one_page]" by (simp add: one_page_def)
  have s: "served (praw_env me listing) ''vosfinances'' tf (if truthy PyNone then Some PyNone else None)
             [one_page]"
    by (simp add: commented_get_def)
  have "wf_item (praw_env me listing) (example_item ''a'' 50)"
    by (simp add: wf_item_def wf_post_data_def example_item_def dict_get_def)
  then have w: "list_all (wf_page (praw_env me listing)) [one_page]"
    by (simp add: one_page_def wf_page_def example_page_def dict_get_def)
  have b: "below_limit 100 0 [one_page]" by simp
  have "post_of (praw_env me listing) ''vosfinances'' (example_item ''a'' 50) =
          example_post ''vosfinances'' ''a'' 50"
    by (simp add: post_of_def public_item_def example_item_def example_post_def MIN_SCORE_def
        praw_env_def commented_env_def public_env_def)
  then show ?thesis
    unfolding fetch_subreddit_posts_public_def
    using public_loop_pages [OF p s w b, of "Suc 0"]
    by (simp add: page_posts_def one_page_def)
qed

text \<open>The listing yields one post and raises: the post is followed by the first
  page of the public endpoint.\<close>

theorem praw_failure_then_whole_public_fetch_example:
  "get_reddit_client (praw_env True [Item example_submission, TopRaises]) w0 =
     (Some (Client 0), \<lparr>reddit_instance = Some (Client 0), praw_log = [NewReddit, UserMe (Client 0)]\<rparr>) \<and>
   yielded (fst (fetch_subreddit_posts_praw (praw_env True [Item example_submission, TopRaises])
                   (Suc 0) ''vosfinances'' ''all'' 100 w0)) =
     [praw_post ''vosfinances'' example_submission ''2023-11-14 22:13:20'',
      example_post ''vosfinances'' ''a'' 50] \<and>
   requests (fst (fetch_subreddit_posts_praw (praw_env True [Item example_submission, TopRaises])
                   (Suc 0) ''vosfinances'' ''all'' 100 w0)) =
     [GetPosts ''vosfinances'' ''all'' 100 None]"
  using praw_failure_then_whole_public_fetch
      [of "praw_env True [Item example_submission, TopRaises]" w0 "Client 0"
          "\<lparr>reddit_instance = Some (Client 0), praw_log = [NewReddit, UserMe (Client 0)]\<rparr>"
          "''vosfinances''" "''all''" 100 "[example_submission]" "[]" "Suc 0"]
    resume_client [of "[Item example_submission, TopRaises]"]
  by (simp add: praw_env_public_fetch example_submission_def MIN_SCORE_def)

text \<open>Against C7 as stated: the post \<^verbatim>\<open>a\<close> the authenticated listing had already
  yielded is delivered a second time, by the public fetch, which starts again at the
  first page.\<close>

theorem praw_failure_repeats_post_counterexample:
  "map (\<lambda>p. map_of p ''id'')
     (yielded (fst (fetch_subreddit_posts (praw_env True [Item example_submission, TopRaises])
                      (Suc 0) ''vosfinances'' ''all'' 100 w0))) =
     [Some (PyStr ''a''), Some (PyStr ''a'')] \<and>
   requests (fst (fetch_subreddit_posts (praw_env True [Item example_submission, TopRaises])
                      (Suc 0) ''vosfinances'' ''all'' 100 w0)) =
     [GetPosts ''vosfinances'' ''all'' 100 None]"
proof -
  have "fst (fetch_subreddit_posts_praw (praw_env True [Item example_submission, TopRaises])
                      (Suc 0) ''vosfinances'' ''all'' 100 w0) =
        emit [praw_post ''vosfinances'' example_submission ''2023-11-14 22:13:20''] []
          (fetch_subreddit_posts_public (praw_env True [Item example_submission, TopRaises])
             (Suc 0) ''vosfinances'' ''all'' 100)"
    by (rule praw_fallback [OF resume_client]) (simp add: example_submission_def MIN_SCORE_def)
  then show ?thesis
    by (simp add: fetch_subreddit_posts_def praw_env_public_fetch praw_post_def example_post_def
        example_submission_def)
qed

text \<open>
  C10 (amended). Every post and comment the authenticated transport produces has a
  string author, \<^verbatim>\<open>[deleted]\<close> when the submission or comment has none. The public
  transport copies the \<^verbatim>\<open>author\<close> field of the response item into the record as it
  is: \<^verbatim>\<open>None\<close> when the field is missing.
\<close>

theorem author_fields:
  "list_all (\<lambda>p. is_str (map_of p ''author'')) (fst (praw_items env subreddit items)) \<and>
   map_of (praw_post subreddit post created_at) ''author'' =
     Some (PyStr (case s_author post of Some a \<Rightarrow> a | None \<Rightarrow> ''[deleted]'')) \<and>
   map_of (praw_top_comment top_comment) ''comment_author'' =
     Some (PyStr (case c_author top_comment of Some a \<Rightarrow> a | None \<Rightarrow> ''[deleted]'')) \<and>
   (public_item env subreddit x = Inr (Some p) \<longrightarrow>
      map_of p ''author'' = Some (item_field x ''author'')) \<and>
   (comment_of_body data = Inr (Some c) \<longrightarrow>
      map_of c ''comment_author'' = Some (comment_field data ''author''))"
proof -
  have "list_all (\<lambda>p. is_str (map_of p ''author'')) (fst (praw_items env subreddit items))"
    by (rule praw_items_list_all) (simp add: praw_post_def is_str_def)
  moreover have "map_of p ''author'' = Some (item_field x ''author'')"
    if "public_item env subreddit x = Inr (Some p)"
    using public_item_Some [OF that] by auto
  moreover have "map_of c ''comment_author'' = Some (comment_field data ''author'')"
    if "comment_of_body data = Inr (Some c)"
    using comment_of_body_Some [OF that] by auto
  ultimately show ?thesis
    by (simp add: praw_post_def praw_top_comment_def)
qed

theorem author_fields_example:
  "public_item commented_env ''vosfinances'' (example_item ''a'' 50) =
     Inr (Some (example_post ''vosfinances'' ''a'' 50)) \<and>
   item_field (example_item ''a'' 50) ''author'' = PyNone \<and>
   map_of (example_post ''vosfinances'' ''a'' 50) ''author'' = Some PyNone \<and>
   comment_of_body comments_body = Inr (Some example_comment) \<and>
   map_of example_comment ''comment_author'' = Some (comment_field comments_body ''author'')"
proof -
  have pi: "public_item commented_env ''vosfinances'' (example_item ''a'' 50) =
     Inr (Some (example_post ''vosfinances'' ''a'' 50))"
    by (simp add: public_item_def example_item_def example_post_def MIN_SCORE_def
        commented_env_def)
  have f: "item_field (example_item ''a'' 50) ''author'' = PyNone"
    by (simp add: item_field_def example_item_def dict_get_def)
  from author_fields [of commented_env "''vosfinances''" "[]" example_submission "''''"
      "\<lparr>c_id = ''c1'', c_body = Some ''nice'', c_score = 7, c_author = None\<rparr>"
      "example_item ''a'' 50" "example_post ''vosfinances'' ''a'' 50" comments_body example_comment]
    pi f comment_of_comments_body
  show ?thesis by simp
qed

text \<open>Against C10 as stated: an item of the public response without an \<^verbatim>\<open>author\<close>
  field becomes a post whose author is \<^verbatim>\<open>None\<close>, not a string.\<close>

theorem public_author_none_counterexample:
  "yielded (fetch_subreddit_posts_public commented_env (Suc 0) ''vosfinances'' ''all'' 100) =
     [example_post ''vosfinances'' ''a'' 50] \<and>
   map_of (example_post ''vosfinances'' ''a'' 50) ''author'' = Some PyNone \<and>
   \<not> is_str (map_of (example_post ''vosfinances'' ''a'' 50) ''author'')"
  by (simp add: commented_fetch example_post_def is_str_def)

section \<open>Fallback to the public transport\<close>

lemma all_posts_inner_Cons:
  "all_posts_inner env wc sub (post # rest) acc w =
     (case enrich env wc sub post w of
        (Inl e, w1) \<Rightarrow> Raises e
      | (Inr p1, w1) \<Rightarrow> all_posts_inner env wc sub rest (acc @ [p1]) w1)"
  by (simp add: enrich_def)

lemma sim_value_of: "sim R r r' \<Longrightarrow> value_of r = value_of r'"
  by (cases r; cases r') (simp_all add: value_of_def)

lemma all_posts_inner_sim:
  assumes step: "\<And>post w w'. R w w' \<Longrightarrow> P post \<Longrightarrow>
      \<exists>r w1 w1'. enrich env1 wc1 sub post w = (r, w1) \<and> enrich env2 wc2 sub post w' = (r, w1') \<and>
                 R w1 w1'"
  shows "list_all P posts \<Longrightarrow> R w w' \<Longrightarrow>
         sim R (all_posts_inner env1 wc1 sub posts acc w) (all_posts_inner env2 wc2 sub posts acc w')"
proof (induction posts arbitrary: acc w w')
  case Nil
  then show ?case by simp
next
  case (Cons post rest)
  from Cons.prems have Pp: "P post" and Pr: "list_all P rest" by simp_all
  from step [OF Cons.prems(2) Pp] obtain r w1 w1' where
    e1: "enrich env1 wc1 sub post w = (r, w1)" and e2: "enrich env2 wc2 sub post w' = (r, w1')"
    and R1: "R w1 w1'" by blast
  show ?case
  proof (cases r)
    case (Inl e)
    with e1 e2 show ?thesis by (simp only: all_posts_inner_Cons) simp
  next
    case (Inr p1)
    with e1 e2 Cons.IH [OF Pr R1, of "acc @ [p1]"] show ?thesis
      by (simp only: all_posts_inner_Cons) simp
  qed
qed

lemma all_posts_outer_sim:
  assumes gen: "\<And>sub w w'. R w w' \<Longrightarrow>
      \<exists>g w1 w1'. fetch_subreddit_posts env1 fuel sub TIME_FILTER limit w = (g, w1) \<and>
                 fetch_subreddit_posts env2 fuel sub TIME_FILTER limit w' = (g, w1') \<and>
                 R w1 w1' \<and> list_all P (yielded g)"
    and step: "\<And>sub post w w'. R w w' \<Longrightarrow> P post \<Longrightarrow>
      \<exists>r w1 w1'. enrich env1 wc1 sub post w = (r, w1) \<and> enrich env2 wc2 sub post w' = (r, w1') \<and>
                 R w1 w1'"
  shows "R w w' \<Longrightarrow>
         sim R (all_posts_outer env1 fuel wc1 limit subs acc w)
               (all_posts_outer env2 fuel wc2 limit subs acc w')"
proof (induction subs arbitrary: acc w w')
  case Nil
  then show ?case by simp
next
  case (Cons sub subs)
  from gen [OF Cons.prems] obtain g w1 w1' where
    f1: "fetch_subreddit_posts env1 fuel sub TIME_FILTER limit w = (g, w1)"
    and f2: "fetch_subreddit_posts env2 fuel sub TIME_FILTER limit w' = (g, w1')"
    and R1: "R w1 w1'" and Pg: "list_all P (yielded g)" by blast
  have inner: "sim R (all_posts_inner env1 wc1 sub (yielded g) acc w1)
                     (all_posts_inner env2 wc2 sub (yielded g) acc w1')"
    by (rule all_posts_inner_sim [of R P env1 wc1 sub env2 wc2, OF step Pg R1])
  show ?case
  proof (cases "all_posts_inner env1 wc1 sub (yielded g) acc w1")
    case (Returns acc1 w2)
    with inner obtain w2' where
      r2: "all_posts_inner env2 wc2 sub (yielded g) acc w1' = Returns acc1 w2'" and R2: "R w2 w2'"
      by (cases "all_posts_inner env2 wc2 sub (yielded g) acc w1'") simp_all
    from Cons.IH [OF R2, of acc1] f1 f2 Returns r2 show ?thesis
      by (simp split: ending.splits)
  next
    case (Raises e)
    with inner have "all_posts_inner env2 wc2 sub (yielded g) acc w1' = Raises e"
      by (cases "all_posts_inner env2 wc2 sub (yielded g) acc w1'") simp_all
    with f1 f2 Raises show ?thesis by simp
  next
    case Diverges
    with inner have "all_posts_inner env2 wc2 sub (yielded g) acc w1' = Diverges"
      by (cases "all_posts_inner env2 wc2 sub (yielded g) acc w1'") simp_all
    with f1 f2 Diverges show ?thesis by simp
  qed
qed

text \<open>The public transport reads the flags of the environment nowhere.\<close>

lemma format_timestamp_flag:
  "format_timestamp (env\<lparr>REDDIT_API_ENABLED := b\<rparr>) = format_timestamp env"
  by (intro ext) (simp add: format_timestamp_def cong: pyval.case_cong)

lemma public_item_flag:
  "public_item (env\<lparr>REDDIT_API_ENABLED := b\<rparr>) = public_item env"
  by (intro ext) (simp add: public_item_def format_timestamp_flag cong: if_cong)

lemma public_items_flag:
  "public_items (env\<lparr>REDDIT_API_ENABLED := b\<rparr>) sub xs = public_items env sub xs"
  by (induction xs) (simp_all add: public_item_flag cong: sum.case_cong option.case_cong)

lemma public_loop_flag:
  "public_loop (env\<lparr>REDDIT_API_ENABLED := b\<rparr>) fuel sub tf limit after count =
   public_loop env fuel sub tf limit after count"
  by (induction fuel arbitrary: after count)
     (simp_all add: public_items_flag Let_def
        cong: if_cong response.case_cong sum.case_cong option.case_cong prod.case_cong)

lemma public_fetch_flag:
  "fetch_subreddit_posts_public (env\<lparr>REDDIT_API_ENABLED := b\<rparr>) = fetch_subreddit_posts_public env"
  "fetch_top_comment_public (env\<lparr>REDDIT_API_ENABLED := b\<rparr>) = fetch_top_comment_public env"
  by (intro ext, simp add: fetch_subreddit_posts_public_def public_loop_flag,
      intro ext, simp add: fetch_top_comment_public_def)

lemma emit_nothing [simp]: "emit [] [] g = g"
  by (simp add: emit_def)

lemma has_id_yielded:
  "list_all has_id (yielded (fst (fetch_subreddit_posts env fuel sub tf limit w)))"
proof (rule fetch_subreddit_posts_list_all(3) [of env sub has_id])
  fix x p assume "public_item env sub x = Inr (Some p)"
  from public_item_Some [OF this] show "has_id p" by (auto simp: has_id_def)
next
  fix s c show "has_id (praw_post sub s c)" by (simp add: has_id_def praw_post_def)
qed

lemma dispatch_disabled:
  "fetch_subreddit_posts (env\<lparr>REDDIT_API_ENABLED := False\<rparr>) fuel sub tf limit w =
     (fetch_subreddit_posts_public env fuel sub tf limit, w)"
  "fetch_top_comment (env\<lparr>REDDIT_API_ENABLED := False\<rparr>) pid sub w =
     (fetch_top_comment_public env pid sub, w)"
  by (simp_all add: fetch_subreddit_posts_def fetch_top_comment_def public_fetch_flag)

text \<open>No client can be constructed: every operation is the public one.\<close>

lemma no_client:
  assumes "REDDIT_API_ENABLED env" "PRAW_AVAILABLE env" "\<forall>hist. praw_Reddit env hist = None"
    and "reddit_instance w = None"
  shows "get_reddit_client env w = (None, w\<lparr>praw_log := praw_log w @ [NewReddit]\<rparr>)"
  using assms by (simp add: get_reddit_client_def)

lemma no_client_harvest:
  assumes en: "REDDIT_API_ENABLED env" "PRAW_AVAILABLE env"
    and nc: "\<forall>hist. praw_Reddit env hist = None"
    and w: "reddit_instance w = None"
  shows "value_of (fetch_all_posts env fuel wc limit w) =
         value_of (fetch_all_posts (env\<lparr>REDDIT_API_ENABLED := False\<rparr>) fuel wc limit w)"
proof -
  let ?R = "\<lambda>w w'. reddit_instance w = None"
  let ?env' = "env\<lparr>REDDIT_API_ENABLED := False\<rparr>"
  have gen: "\<exists>g w1 w1'. fetch_subreddit_posts env fuel sub TIME_FILTER limit w = (g, w1) \<and>
                 fetch_subreddit_posts ?env' fuel sub TIME_FILTER limit w' = (g, w1') \<and>
                 ?R w1 w1' \<and> list_all (\<lambda>p. True) (yielded g)"
    if "?R w w'" for sub w w'
    using that en no_client [OF en nc that]
    by (simp add: public_fetch_flag fetch_subreddit_posts_def fetch_subreddit_posts_praw_def
        list_all_iff)
  have tc: "fetch_top_comment env pid sub w =
              (fetch_top_comment_public env pid sub, w\<lparr>praw_log := praw_log w @ [NewReddit]\<rparr>)"
    if "reddit_instance w = None" for pid sub w
    using en no_client [OF en nc that]
    by (simp add: fetch_top_comment_def fetch_top_comment_praw_def)
  have step: "\<exists>r w1 w1'. enrich env wc sub post w = (r, w1) \<and>
                 enrich ?env' wc sub post w' = (r, w1') \<and> ?R w1 w1'"
    if "?R w w'" for sub post w w'
    using that tc [OF that]
    by (auto simp: enrich_def add_comment_def dispatch_disabled
        split: sum.splits option.splits)
  have "sim ?R (all_posts_outer env fuel wc limit SUBREDDITS [] w)
               (all_posts_outer ?env' fuel wc limit SUBREDDITS [] w)"
    by (rule all_posts_outer_sim [of ?R env fuel limit ?env' "\<lambda>p. True" wc wc, OF gen step w])
  then show ?thesis
    unfolding fetch_all_posts_def by (rule sim_value_of)
qed

text \<open>A client is there and every request made with it raises at once: the posts
  come from the public transport, the comments are dropped.\<close>

lemma raising_client:
  assumes "REDDIT_API_ENABLED env" "PRAW_AVAILABLE env" "\<forall>hist. praw_Reddit env hist \<noteq> None"
    and "\<forall>hist c. user_me env hist c"
  shows "\<exists>c w1. get_reddit_client env w = (Some c, w1)"
proof (cases "reddit_instance w")
  case None
  from assms(3) obtain c where "praw_Reddit env (praw_log w) = Some c" by auto
  with None assms show ?thesis by (simp add: get_reddit_client_def Let_def)
next
  case (Some c)
  with assms show ?thesis by (simp add: get_reddit_client_def)
qed

lemma raising_client_harvest:
  assumes en: "REDDIT_API_ENABLED env" "PRAW_AVAILABLE env"
    and ok: "\<forall>hist. praw_Reddit env hist \<noteq> None"
    and me: "\<forall>hist c. user_me env hist c"
    and top: "\<forall>hist c sub tf n. \<exists>rest. sub_top env hist c sub tf n = TopRaises # rest"
    and com: "\<forall>hist c pid. submission_comments env hist c pid = None"
  shows "value_of (fetch_all_posts env fuel wc limit w) =
         value_of (fetch_all_posts (env\<lparr>REDDIT_API_ENABLED := False\<rparr>) fuel False limit w)"
proof -
  let ?R = "\<lambda>(w::world) (w'::world). True"
  let ?env' = "env\<lparr>REDDIT_API_ENABLED := False\<rparr>"
  have items: "praw_items env sub (sub_top env hist c sub tf n) = ([], True)" for sub hist c tf n
    using top [rule_format, of hist c sub tf n] by auto
  have gen: "\<exists>g w1 w1'. fetch_subreddit_posts env fuel sub TIME_FILTER limit w = (g, w1) \<and>
                 fetch_subreddit_posts ?env' fuel sub TIME_FILTER limit w' = (g, w1') \<and>
                 ?R w1 w1' \<and> list_all has_id (yielded g)"
    if "?R w w'" for sub w w'
  proof -
    from raising_client [OF en ok me, of w] obtain c w1 where
      c: "get_reddit_client env w = (Some c, w1)" by blast
    have "fetch_subreddit_posts env fuel sub TIME_FILTER limit w =
            (fetch_subreddit_posts_public env fuel sub TIME_FILTER limit,
             w1\<lparr>praw_log := praw_log w1 @ [CallTop c sub TIME_FILTER limit]\<rparr>)"
      using en c by (simp add: fetch_subreddit_posts_def fetch_subreddit_posts_praw_def items)
    moreover have "list_all has_id (yielded (fetch_subreddit_posts_public env fuel sub TIME_FILTER limit))"
      using has_id_yielded [of ?env' fuel sub TIME_FILTER limit w]
      by (simp add: dispatch_disabled)
    ultimately show ?thesis by (simp add: dispatch_disabled)
  qed
  have tc: "\<exists>w1. fetch_top_comment env pid sub w = (Inr None, w1)" for pid sub w
  proof -
    from raising_client [OF en ok me, of w] obtain c w1 where
      c: "get_reddit_client env w = (Some c, w1)" by blast
    show ?thesis
      using en c com by (simp add: fetch_top_comment_def fetch_top_comment_praw_def)
  qed
  have step: "\<exists>r w1 w1'. enrich env wc sub post w = (r, w1) \<and>
                 enrich ?env' False sub post w' = (r, w1') \<and> ?R w1 w1'"
    if "?R w w'" "has_id post" for sub post w w'
  proof (cases wc)
    case False
    then show ?thesis by (simp add: enrich_def)
  next
    case True
    from \<open>has_id post\<close> obtain pid where pid: "dict_item post ''id'' = Inr pid"
      by (auto simp: has_id_def dict_item_def)
    from tc [of pid sub w] obtain w1 where "fetch_top_comment env pid sub w = (Inr None, w1)" ..
    with True pid show ?thesis by (simp add: enrich_def add_comment_def)
  qed
  have "sim ?R (all_posts_outer env fuel wc limit SUBREDDITS [] w)
               (all_posts_outer ?env' fuel False limit SUBREDDITS [] w)"
    by (rule all_posts_outer_sim [of ?R env fuel limit ?env' has_id wc False, OF gen step]) simp_all
  then show ?thesis
    unfolding fetch_all_posts_def by (rule sim_value_of)
qed

lemma commented_public_run:
  assumes "requests_get env = commented_get" and "py_str env PyNone = ''None''"
  shows "fetch_subreddit_posts_public env (Suc 0) sub tf 100 =
           (if sub = ''vosfinances''
            then \<lparr>yielded = [example_post ''vosfinances'' ''a'' 50],
                  requests = [GetPosts ''vosfinances'' tf 100 None], ending = Finished\<rparr>
            else \<lparr>yielded = [], requests = [GetPosts sub tf 100 None], ending = Finished\<rparr>)"
    and "fetch_top_comment_public env (PyStr ''a'') ''vosfinances'' = Inr (Some example_comment)"
  using assms
  by (simp_all add: fetch_subreddit_posts_public_def commented_get_def one_page_def
      example_page_def example_item_def page_field_def public_item_def MIN_SCORE_def emit_def
      stop_def example_post_def fetch_top_comment_public_def comment_of_comments_body)

lemma commented_public_harvest:
  assumes "requests_get env = commented_get" and "py_str env PyNone = ''None''"
    and "\<not> (REDDIT_API_ENABLED env \<and> PRAW_AVAILABLE env)"
  shows "fetch_all_posts env (Suc 0) True 100 w =
           Returns [example_post ''vosfinances'' ''a'' 50 @ example_comment] w"
    and "fetch_all_posts env (Suc 0) False 100 w =
           Returns [example_post ''vosfinances'' ''a'' 50] w"
proof -
  have id: "dict_item (example_post ''vosfinances'' ''a'' 50) ''id'' = Inr (PyStr ''a'')"
    by (simp add: dict_item_def example_post_def)
  have ne: "example_comment \<noteq> []" by (simp add: example_comment_def)
  note run = commented_public_run [OF assms(1,2)]
  from assms(3) have d: "fetch_subreddit_posts env fuel sub tf limit w =
      (fetch_subreddit_posts_public env fuel sub tf limit, w)"
    "fetch_top_comment env pid sub w = (fetch_top_comment_public env pid sub, w)"
    for fuel sub tf limit w pid
    by (auto simp: fetch_subreddit_posts_def fetch_top_comment_def)
  show "fetch_all_posts env (Suc 0) True 100 w =
           Returns [example_post ''vosfinances'' ''a'' 50 @ example_comment] w"
    by (simp add: fetch_all_posts_def SUBREDDITS_eq d run add_comment_def id ne
        example_post_update)
  show "fetch_all_posts env (Suc 0) False 100 w =
           Returns [example_post ''vosfinances'' ''a'' 50] w"
    by (simp add: fetch_all_posts_def SUBREDDITS_eq d run)
qed


lemma no_client_env_simps [simp]:
  "REDDIT_API_ENABLED no_client_env" "PRAW_AVAILABLE no_client_env"
  "praw_Reddit no_client_env hist = None"
  "requests_get no_client_env = commented_get"
  "py_str no_client_env PyNone = ''None''"
  by (simp_all add: no_client_env_def commented_env_def public_env_def)

lemma praw_env_py_str [simp]: "py_str (praw_env me listing) PyNone = ''None''"
  by (simp add: praw_env_def commented_env_def public_env_def)



section \<open>The incremental harvest\<close>

lemma has_time_ge:
  assumes "has_time post"
  shows "py_ge (dict_get post ''created_utc'' (PyNum 0)) cutoff = Inr (at_or_after cutoff post)"
proof -
  from assms obtain t where "map_of post ''created_utc'' = Some (PyNum t)"
    by (auto simp: has_time_def split: option.splits pyval.splits)
  then show ?thesis by (simp add: dict_get_def at_or_after_def)
qed

lemma new_posts_inner_refines:
  "list_all has_time posts \<Longrightarrow>
   new_posts_inner env cutoff wc sub posts acc w =
   all_posts_inner env wc sub (filter (at_or_after cutoff) posts) acc w"
proof (induction posts arbitrary: acc w)
  case Nil
  show ?case by simp
next
  case (Cons post rest)
  from Cons.prems have ht: "has_time post" and hr: "list_all has_time rest" by simp_all
  note ge = has_time_ge [OF ht, of cutoff]
  show ?case
  proof (cases "at_or_after cutoff post")
    case False
    with ge Cons.IH [OF hr] show ?thesis by simp
  next
    case True
    show ?thesis
    proof (cases wc)
      case False
      with True ge Cons.IH [OF hr] show ?thesis by simp
    next
      case wc: True
      obtain r w1 where ac: "add_comment env sub post w = (r, w1)"
        by (cases "add_comment env sub post w")
      show ?thesis
        using True wc ge ac Cons.IH [OF hr] by (cases r) simp_all
    qed
  qed
qed

lemma new_posts_outer_refines:
  assumes "\<forall>sub w. list_all has_time (yielded (fst (fetch_subreddit_posts env fuel sub ''day'' 100 w)))"
  shows "new_posts_outer env fuel cutoff wc subs acc w =
         harvest_recent_spec env fuel cutoff wc subs acc w"
proof (induction subs arbitrary: acc w)
  case Nil
  show ?case by simp
next
  case (Cons sub subs)
  obtain g w1 where f: "fetch_subreddit_posts env fuel sub ''day'' 100 w = (g, w1)"
    by (cases "fetch_subreddit_posts env fuel sub ''day'' 100 w")
  from assms [rule_format, of sub w] f have "list_all has_time (yielded g)" by simp
  then have "new_posts_inner env cutoff wc sub (yielded g) acc w1 =
      all_posts_inner env wc sub (filter (at_or_after cutoff) (yielded g)) acc w1"
    by (rule new_posts_inner_refines)
  with f Cons.IH show ?case
    by (simp cong: result.case_cong ending.case_cong)
qed

lemma all_posts_inner_plain:
  "all_posts_inner env False sub posts acc w = Returns (acc @ posts) w"
  by (induction posts arbitrary: acc) simp_all

lemma harvest_recent_spec_plain:
  assumes "\<forall>sub w. ending (fst (fetch_subreddit_posts env fuel sub ''day'' 100 w)) = Finished"
  shows "harvest_recent_spec env fuel cutoff False subs acc w =
         Returns (acc @ filter (at_or_after cutoff) (fst (day_fetch env fuel subs w)))
           (snd (day_fetch env fuel subs w))"
proof (induction subs arbitrary: acc w)
  case Nil
  show ?case by simp
next
  case (Cons sub subs)
  obtain g w1 where f: "fetch_subreddit_posts env fuel sub ''day'' 100 w = (g, w1)"
    by (cases "fetch_subreddit_posts env fuel sub ''day'' 100 w")
  from assms [rule_format, of sub w] f have e: "ending g = Finished" by simp
  show ?case
    by (simp add: f e all_posts_inner_plain Cons.IH case_prod_beta)
qed


lemma recent_public_run:
  "fetch_subreddit_posts_public recent_env (Suc 0) sub tf 100 =
     (if sub = ''vosfinances''
      then \<lparr>yielded = [timed_post ''vosfinances'' ''a'' 50 1699990000,
                       timed_post ''vosfinances'' ''b'' 40 1699000000,
                       timed_post ''vosfinances'' ''c'' 30 1699913600],
            requests = [GetPosts ''vosfinances'' tf 100 None], ending = Finished\<rparr>
      else \<lparr>yielded = [], requests = [GetPosts sub tf 100 None], ending = Finished\<rparr>)"
  by (simp add: fetch_subreddit_posts_public_def recent_env_def recent_get_def recent_page_def
      example_page_def timed_item_def page_field_def public_item_def MIN_SCORE_def emit_def
      stop_def timed_post_def format_timestamp_def)

lemma recent_dispatch:
  "fetch_subreddit_posts recent_env fuel sub tf limit w =
     (fetch_subreddit_posts_public recent_env fuel sub tf limit, w)"
  by (simp add: fetch_subreddit_posts_def recent_env_def)


section \<open>Exceptions that reach the caller\<close>

lemma comment_of_body_wf:
  assumes "wf_comments data"
  shows "\<exists>r. comment_of_body data = Inr r"
proof -
  from assms obtain xs where data: "data = PyList xs"
    by (auto simp: wf_comments_def split: pyval.splits)
  show ?thesis
  proof (cases "1 < length xs")
    case False
    with data show ?thesis by (simp add: comment_of_body_def)
  next
    case True
    with assms data obtain kvs d cs where second: "xs ! 1 = PyDict kvs"
      and d: "dict_get kvs ''data'' (PyDict []) = PyDict d"
      and cs: "dict_get d ''children'' (PyList []) = PyList cs"
      and w: "cs = [] \<or> wf_wrapper (hd cs)"
      by (auto simp: wf_comments_def split: pyval.splits list.splits)
    have pf: "page_field (PyDict kvs) ''children'' (PyList []) = Inr (PyList cs)"
      by (simp add: page_field_def py_get_dict d cs del: py_get.simps)
    show ?thesis
    proof (cases cs)
      case Nil
      with data True second pf show ?thesis by (simp add: comment_of_body_def)
    next
      case (Cons c rest)
      with w have "wf_wrapper c" by simp
      then obtain ckvs where c: "c = PyDict ckvs"
        by (auto simp: wf_wrapper_def split: pyval.splits)
      show ?thesis
      proof (cases "dict_get ckvs ''kind'' PyNone = PyStr ''t1''")
        case False
        with data True second pf Cons c show ?thesis
          by (simp add: comment_of_body_def py_get_dict del: py_get.simps)
      next
        case t1: True
        with \<open>wf_wrapper c\<close> c obtain cd s where cd: "dict_get ckvs ''data'' (PyDict []) = PyDict cd"
          and s: "dict_get cd ''body'' (PyStr []) = PyStr s"
          by (auto simp: wf_wrapper_def split: pyval.splits)
        with data True second pf Cons c t1 show ?thesis
          by (simp add: comment_of_body_def py_get_dict del: py_get.simps)
      qed
    qed
  qed
qed

lemma wf_endpointD:
  assumes "wf_endpoint env"
  shows "requests_get env (GetPosts sub tf n c) = Body pg \<Longrightarrow> wf_page env pg"
    and "requests_get env (GetComments sub pid) = Body data \<Longrightarrow> wf_comments data"
  using assms [unfolded wf_endpoint_def, rule_format, of "GetPosts sub tf n c"]
    assms [unfolded wf_endpoint_def, rule_format, of "GetComments sub pid"]
  by (simp_all add: wf_response_def)

lemma fetch_top_comment_public_wf:
  assumes "wf_endpoint env"
  shows "\<exists>r. fetch_top_comment_public env pid sub = Inr r"
proof (cases "requests_get env (GetComments sub pid)")
  case Fails
  then show ?thesis by (simp add: fetch_top_comment_public_def)
next
  case (Body data)
  from comment_of_body_wf [OF wf_endpointD(2) [OF assms Body]] Body
  show ?thesis by (simp add: fetch_top_comment_public_def)
qed

lemma fetch_top_comment_wf:
  assumes "wf_endpoint env"
  shows "\<exists>r. fst (fetch_top_comment env pid sub w) = Inr r"
  using fetch_top_comment_public_wf [OF assms, of pid sub]
  by (auto simp: fetch_top_comment_def fetch_top_comment_praw_def Let_def
      split: prod.splits option.splits list.splits)

lemma add_comment_wf:
  assumes "wf_endpoint env" and "has_id post"
  shows "\<exists>p1. fst (add_comment env sub post w) = Inr p1"
proof -
  from assms(2) obtain pid where pid: "dict_item post ''id'' = Inr pid"
    by (auto simp: has_id_def dict_item_def)
  obtain r w1 where f: "fetch_top_comment env pid sub w = (r, w1)"
    by (cases "fetch_top_comment env pid sub w")
  with fetch_top_comment_wf [OF assms(1), of pid sub w] obtain oc where "r = Inr oc" by auto
  with pid f show ?thesis
    by (cases oc) (simp_all add: add_comment_def)
qed

lemma post_of_wf_has_time:
  assumes "wf_item env x" and "accepted x"
  shows "has_time (post_of env sub x)"
proof -
  from assms(1) obtain kvs d sc t s where x: "x = PyDict kvs"
    and d: "dict_get kvs ''data'' (PyDict []) = PyDict d"
    and sc: "dict_get d ''score'' (PyNum 0) = PyNum sc"
    and t: "dict_get d ''created_utc'' (PyNum 0) = PyNum t"
    and tok: "t = 0 \<or> utcfromtimestamp env t \<noteq> None"
    and s: "dict_get d ''selftext'' (PyStr []) = PyStr s"
    by (rule wf_itemD)
  from assms(2) have acc: "of_int MIN_SCORE \<le> sc"
    by (simp add: accepted_def item_score_def x d sc)
  from tok have "\<exists>ca. (if t \<noteq> 0 then format_timestamp env (PyNum t) else Inr PyNone) = Inr ca"
    by (auto simp: format_timestamp_def)
  then obtain ca where ca: "(if t \<noteq> 0 then format_timestamp env (PyNum t) else Inr PyNone) = Inr ca"
    by blast
  have "\<exists>p. public_item env sub x = Inr (Some p) \<and> map_of p ''created_utc'' = Some (PyNum t)"
    using acc ca by (simp add: public_item_def x py_get_dict d sc t s del: py_get.simps)
  then show ?thesis by (auto simp: post_of_def has_time_def)
qed

lemma page_posts_has_time:
  assumes "wf_page env pg"
  shows "list_all has_time (page_posts env sub pg)"
  using wf_pageD(2) [OF assms]
  by (auto simp: page_posts_def list_all_iff intro: post_of_wf_has_time)

lemma public_loop_wf:
  assumes "wf_endpoint env"
  shows "ending (public_loop env fuel sub tf limit after count) \<noteq> Raised e \<and>
         list_all has_time (yielded (public_loop env fuel sub tf limit after count))"
proof (induction fuel arbitrary: after count)
  case 0
  show ?case by simp
next
  case (Suc fuel)
  show ?case
  proof (cases "count < limit")
    case False
    then show ?thesis by simp
  next
    case True
    let ?req = "GetPosts sub tf (min (limit - count) 100) (if truthy after then Some after else None)"
    show ?thesis
    proof (cases "requests_get env ?req")
      case Fails
      from public_loop_fails [OF True Fails] show ?thesis by simp
    next
      case (Body pg)
      from wf_endpointD(1) [OF assms Body] have wf: "wf_page env pg" .
      from public_loop_step [OF True Body wf, of fuel] Suc.IH page_posts_has_time [OF wf, of sub]
      show ?thesis by simp
    qed
  qed
qed

lemma fetch_subreddit_posts_wf:
  assumes "wf_endpoint env"
  shows "ending (fst (fetch_subreddit_posts env fuel sub tf limit w)) \<noteq> Raised e"
    and "list_all has_time (yielded (fst (fetch_subreddit_posts env fuel sub tf limit w)))"
proof -
  have pub: "ending (fetch_subreddit_posts_public env fuel sub tf limit) \<noteq> Raised e"
    "list_all has_time (yielded (fetch_subreddit_posts_public env fuel sub tf limit))"
    using public_loop_wf [OF assms, of fuel sub tf limit PyNone 0 e]
    by (simp_all add: fetch_subreddit_posts_public_def)
  have pi: "list_all has_time (fst (praw_items env sub items))" for items
    by (rule praw_items_list_all [of has_time sub]) (simp add: has_time_def praw_post_def)
  show "ending (fst (fetch_subreddit_posts env fuel sub tf limit w)) \<noteq> Raised e"
    using pub(1)
    by (simp add: fetch_subreddit_posts_def fetch_subreddit_posts_praw_def Let_def case_prod_beta
        split: option.splits bool.splits)
  show "list_all has_time (yielded (fst (fetch_subreddit_posts env fuel sub tf limit w)))"
    using pub(2) pi
    by (simp add: fetch_subreddit_posts_def fetch_subreddit_posts_praw_def Let_def case_prod_beta
        split: option.splits bool.splits)
qed

lemma all_posts_inner_returns:
  assumes "wf_endpoint env"
  shows "list_all has_id posts \<Longrightarrow> \<exists>res w1. all_posts_inner env wc sub posts acc w = Returns res w1"
proof (induction posts arbitrary: acc w)
  case Nil
  show ?case by simp
next
  case (Cons post rest)
  from Cons.prems have hp: "has_id post" and hr: "list_all has_id rest" by simp_all
  show ?case
  proof (cases wc)
    case False
    with Cons.IH [OF hr] show ?thesis by simp
  next
    case True
    obtain r w1 where ac: "add_comment env sub post w = (r, w1)"
      by (cases "add_comment env sub post w")
    with add_comment_wf [OF assms hp, of sub w] obtain p1 where "r = Inr p1" by auto
    with True ac Cons.IH [OF hr] show ?thesis by simp
  qed
qed

lemma new_posts_inner_returns:
  assumes "wf_endpoint env" and "list_all has_id posts" and "list_all has_time posts"
  shows "\<exists>res w1. new_posts_inner env cutoff wc sub posts acc w = Returns res w1"
proof -
  from assms(2) have "list_all has_id (filter (at_or_after cutoff) posts)"
    by (simp add: list_all_iff)
  from all_posts_inner_returns [OF assms(1) this]
  show ?thesis by (simp add: new_posts_inner_refines [OF assms(3)])
qed

lemma all_posts_outer_wf:
  assumes "wf_endpoint env"
  shows "all_posts_outer env fuel wc limit subs acc w \<noteq> Raises e \<and>
         ((\<forall>sub w. ending (fst (fetch_subreddit_posts env fuel sub TIME_FILTER limit w)) \<noteq> OutOfFuel)
          \<longrightarrow> (\<exists>res w1. all_posts_outer env fuel wc limit subs acc w = Returns res w1))"
proof (induction subs arbitrary: acc w)
  case Nil
  show ?case by simp
next
  case (Cons sub subs)
  obtain g w1 where f: "fetch_subreddit_posts env fuel sub TIME_FILTER limit w = (g, w1)"
    by (cases "fetch_subreddit_posts env fuel sub TIME_FILTER limit w")
  from has_id_yielded [of env fuel sub TIME_FILTER limit w] f
  have "list_all has_id (yielded g)" by simp
  from all_posts_inner_returns [OF assms this] obtain acc1 w2 where
    inner: "all_posts_inner env wc sub (yielded g) acc w1 = Returns acc1 w2" by blast
  from fetch_subreddit_posts_wf(1) [OF assms, of fuel sub TIME_FILTER limit w] f
  have nr: "ending g \<noteq> Raised x" for x by simp
  show ?case
  proof (cases "ending g")
    case Finished
    with f inner Cons.IH [of acc1 w2] show ?thesis by simp
  next
    case (Raised x)
    with nr [of x] show ?thesis by simp
  next
    case OutOfFuel
    with f have "ending (fst (fetch_subreddit_posts env fuel sub TIME_FILTER limit w)) = OutOfFuel"
      by simp
    then have "\<exists>sub w. ending (fst (fetch_subreddit_posts env fuel sub TIME_FILTER limit w)) = OutOfFuel"
      by blast
    with f inner OutOfFuel show ?thesis by simp
  qed
qed

lemma new_posts_outer_wf:
  assumes "wf_endpoint env"
  shows "new_posts_outer env fuel cutoff wc subs acc w \<noteq> Raises e \<and>
         ((\<forall>sub w. ending (fst (fetch_subreddit_posts env fuel sub ''day'' 100 w)) \<noteq> OutOfFuel)
          \<longrightarrow> (\<exists>res w1. new_posts_outer env fuel cutoff wc subs acc w = Returns res w1))"
proof (induction subs arbitrary: acc w)
  case Nil
  show ?case by simp
next
  case (Cons sub subs)
  obtain g w1 where f: "fetch_subreddit_posts env fuel sub ''day'' 100 w = (g, w1)"
    by (cases "fetch_subreddit_posts env fuel sub ''day'' 100 w")
  from has_id_yielded [of env fuel sub "''day''" 100 w] f
  have hi: "list_all has_id (yielded g)" by simp
  from fetch_subreddit_posts_wf(2) [OF assms, of fuel sub "''day''" 100 w] f
  have ht: "list_all has_time (yielded g)" by simp
  from new_posts_inner_returns [OF assms hi ht] obtain acc1 w2 where
    inner: "new_posts_inner env cutoff wc sub (yielded g) acc w1 = Returns acc1 w2" by blast
  from fetch_subreddit_posts_wf(1) [OF assms, of fuel sub "''day''" 100 w] f
  have nr: "ending g \<noteq> Raised x" for x by simp
  show ?case
  proof (cases "ending g")
    case Finished
    with f inner Cons.IH [of acc1 w2] show ?thesis by simp
  next
    case (Raised x)
    with nr [of x] show ?thesis by simp
  next
    case OutOfFuel
    with f have "ending (fst (fetch_subreddit_posts env fuel sub ''day'' 100 w)) = OutOfFuel"
      by simp
    then have "\<exists>sub w. ending (fst (fetch_subreddit_posts env fuel sub ''day'' 100 w)) = OutOfFuel"
      by blast
    with f inner OutOfFuel show ?thesis by simp
  qed
qed


lemma wf_commented_env: "wf_endpoint commented_env"
  unfolding wf_endpoint_def
proof
  fix r
  have c: "wf_comments comments_body"
    by (simp add: wf_comments_def comments_body_def dict_get_def wf_wrapper_def)
  have p: "wf_page commented_env one_page"
    by (simp add: commented_env_def one_page_def)
  show "wf_response commented_env r"
    using c p
    by (cases r) (simp_all add: wf_response_def commented_env_def commented_get_def
        del: wf_example_page split: response.splits)
qed

lemma commented_env_ends:
  "ending (fst (fetch_subreddit_posts commented_env (Suc 0) sub tf 100 w)) = Finished"
proof -
  have "requests_get commented_env = commented_get" "py_str commented_env PyNone = ''None''"
    by (simp_all add: commented_env_def)
  from commented_public_run(1) [OF this, of sub tf] show ?thesis
    by (simp add: fetch_subreddit_posts_def commented_env_def)
qed



end
